theory Spec2Isabelle
  imports Complex_Main "HOL-Library.Multiset"
begin

section \<open>Dungeon Deli sandwich puzzle (phase 1.6): data model\<close>

text \<open>
  The embedding follows \<open>DD-sandwich-puzzle-phase1_6.js\<close>. Module-level variables
  and the two global objects \<open>GameState\<close> and \<open>GAME_CONFIG\<close> are the fields of one
  record \<open>world\<close> that every operation takes and returns. A tile object is
  addressed by its index in the \<open>tiles\<close> array (its identity); ingredient ids,
  counters and pixel coordinates are integers, rows and columns are naturals (they
  are only ever produced by loops counting up from 0).
\<close>

subsection \<open>GameState\<close>

record petStats =
  hp :: int
  maxHp :: int
  hunger :: int
  attack :: int
  defense :: int
  stamina :: int

record recipe =
  rid :: string
  rname :: string
  description :: string
  rsequence :: "int list"
  buff :: "(string \<times> int) list option"
  difficulty :: "string option"
  gridSize :: "nat option"
  optimalMoves :: "int option"
  maxMoves :: "int option"

datatype puzzleResult = Win | Fail

record gameState =
  currentRecipe :: "recipe option"
  lastResult :: "puzzleResult option"
  completedRecipes :: "string list"
  pet :: petStats
  totalMoves :: int
  puzzlesCompleted :: int
  puzzlesFailed :: int

definition initialGameState :: gameState where
  "initialGameState =
     \<lparr>currentRecipe = None, lastResult = None, completedRecipes = [],
      pet = \<lparr>hp = 100, maxHp = 100, hunger = 100, attack = 10, defense = 10, stamina = 100\<rparr>,
      totalMoves = 0, puzzlesCompleted = 0, puzzlesFailed = 0\<rparr>"

subsection \<open>The recipe catalogue\<close>

definition classic_stack :: recipe where
  "classic_stack =
     \<lparr>rid = ''classic_stack'', rname = ''Classic Stack'',
      description = ''The traditional dungeon sandwich.'',
      rsequence = [1, 2, 3, 4, 5, 6, 7, 8],
      buff = Some [(''health'', 20), (''defense'', 5)],
      difficulty = Some ''Medium'', gridSize = Some 3,
      optimalMoves = Some 30, maxMoves = Some 60\<rparr>"

definition leafy_stack :: recipe where
  "leafy_stack =
     \<lparr>rid = ''leafy_stack'', rname = ''Leafy Stack'',
      description = ''A simple veggie sandwich for herbivore pets.'',
      rsequence = [1, 2, 3, 8],
      buff = Some [(''defense'', 10), (''stamina'', 15)],
      difficulty = Some ''Easy'', gridSize = Some 3,
      optimalMoves = Some 15, maxMoves = Some 40\<rparr>"

definition cheesy_beast :: recipe where
  "cheesy_beast =
     \<lparr>rid = ''cheesy_beast'', rname = ''Cheesy Beast'',
      description = ''Extra cheese for hungry pets.'',
      rsequence = [1, 4, 5, 8],
      buff = Some [(''attack'', 15), (''health'', 10)],
      difficulty = Some ''Easy'', gridSize = Some 3,
      optimalMoves = Some 15, maxMoves = Some 40\<rparr>"

definition protein_power :: recipe where
  "protein_power =
     \<lparr>rid = ''protein_power'', rname = ''Protein Power'',
      description = ''Meat-heavy meal for warrior pets.'',
      rsequence = [1, 5, 4, 8],
      buff = Some [(''attack'', 20), (''defense'', 5)],
      difficulty = Some ''Easy'', gridSize = Some 3,
      optimalMoves = Some 15, maxMoves = Some 40\<rparr>"

definition garden_delight :: recipe where
  "garden_delight =
     \<lparr>rid = ''garden_delight'', rname = ''Garden Delight'',
      description = ''Fresh veggies for balanced nutrition.'',
      rsequence = [1, 2, 6, 7, 8],
      buff = Some [(''health'', 15), (''stamina'', 20)],
      difficulty = Some ''Medium'', gridSize = Some 3,
      optimalMoves = Some 20, maxMoves = Some 50\<rparr>"

definition deluxe_combo :: recipe where
  "deluxe_combo =
     \<lparr>rid = ''deluxe_combo'', rname = ''Deluxe Combo'',
      description = ''Everything sandwich for special occasions.'',
      rsequence = [1, 2, 3, 4, 5, 6, 7, 8],
      buff = Some [(''health'', 30), (''attack'', 10), (''defense'', 10), (''stamina'', 15)],
      difficulty = Some ''Hard'', gridSize = Some 3,
      optimalMoves = Some 35, maxMoves = Some 70\<rparr>"

definition RECIPES :: "recipe list" where
  "RECIPES = [classic_stack, leafy_stack, cheesy_beast, protein_power,
              garden_delight, deluxe_combo]"

subsection \<open>GAME_CONFIG and the scene state\<close>

record gameConfig =
  GRID_SIZE :: nat
  RECIPE_MODE :: bool
  DEFAULT_RECIPE_ID :: string
  OPTIMAL_MOVES :: int
  MAX_MOVES :: int
  DIFFICULTY :: string
  SHUFFLE_MOVE_COUNT :: nat
  ENABLE_HYBRID_SHUFFLE :: bool
  HYBRID_SHUFFLE_COUNT :: nat

definition initialConfig :: gameConfig where
  "initialConfig =
     \<lparr>GRID_SIZE = 3, RECIPE_MODE = True, DEFAULT_RECIPE_ID = ''leafy_stack'',
      OPTIMAL_MOVES = 20, MAX_MOVES = 50, DIFFICULTY = ''Normal'',
      SHUFFLE_MOVE_COUNT = 20, ENABLE_HYBRID_SHUFFLE = True, HYBRID_SHUFFLE_COUNT = 6\<rparr>"

text \<open>
  A tile: its ingredient id, its logical cell, and the render coordinates of its
  Phaser container (\<open>tile.container.x\<close>, \<open>tile.container.y\<close>).
\<close>

record tile =
  tid :: int
  currentRow :: nat
  currentCol :: nat
  containerX :: int
  containerY :: int

record pos =
  row :: nat
  col :: nat

type_synonym grid = "int list list"

record world =
  tiles :: "tile list"
  gridData :: grid
  emptyPos :: pos
  moveCount :: int
  isAnimating :: bool
  isShuffling :: bool
  isWon :: bool
  hasFailed :: bool
  GameState :: gameState
  GAME_CONFIG :: gameConfig

definition initialWorld :: world where
  "initialWorld =
     \<lparr>tiles = [], gridData = [], emptyPos = \<lparr>row = 2, col = 2\<rparr>, moveCount = 0,
      isAnimating = False, isShuffling = False, isWon = False, hasFailed = False,
      GameState = initialGameState, GAME_CONFIG = initialConfig\<rparr>"

section \<open>Event hooks\<close>

text \<open>The four rating strings: three, two and one star, and the skull.\<close>

datatype rating = ThreeStars | TwoStars | OneStar | Skull

text \<open>
  \<open>GameState.petStats[stat]\<close>: the six own keys of the object; any other key reads
  \<open>undefined\<close> (\<open>None\<close>). Keys inherited from \<open>Object.prototype\<close> are left
  out: no recipe names one, and none of them is \<open>hp\<close> or \<open>maxHp\<close>.
\<close>

definition getStat :: "string \<Rightarrow> petStats \<Rightarrow> int option" where
  "getStat stat p =
     (if stat = ''hp'' then Some (hp p)
      else if stat = ''maxHp'' then Some (maxHp p)
      else if stat = ''hunger'' then Some (hunger p)
      else if stat = ''attack'' then Some (attack p)
      else if stat = ''defense'' then Some (defense p)
      else if stat = ''stamina'' then Some (stamina p)
      else None)"

definition setStat :: "string \<Rightarrow> int \<Rightarrow> petStats \<Rightarrow> petStats" where
  "setStat stat v p =
     (if stat = ''hp'' then p\<lparr>hp := v\<rparr>
      else if stat = ''maxHp'' then p\<lparr>maxHp := v\<rparr>
      else if stat = ''hunger'' then p\<lparr>hunger := v\<rparr>
      else if stat = ''attack'' then p\<lparr>attack := v\<rparr>
      else if stat = ''defense'' then p\<lparr>defense := v\<rparr>
      else if stat = ''stamina'' then p\<lparr>stamina := v\<rparr>
      else p)"

text \<open>The body of the \<open>forEach\<close> over \<open>Object.keys(recipe.buff)\<close>.\<close>

definition applyBuff :: "string \<times> int \<Rightarrow> petStats \<Rightarrow> petStats" where
  "applyBuff kv p =
     (case getStat (fst kv) p of
        None \<Rightarrow> p
      | Some v \<Rightarrow>
          (let p' = setStat (fst kv) (v + snd kv) p
           in if fst kv = ''hp'' \<or> fst kv = ''health''
              then p'\<lparr>hp := min (hp p') (maxHp p')\<rparr> else p'))"

definition onPuzzleComplete :: "recipe \<Rightarrow> int \<Rightarrow> rating \<Rightarrow> gameState \<Rightarrow> gameState" where
  "onPuzzleComplete r moves rating g =
     (let g1 = g\<lparr>lastResult := Some Win, currentRecipe := Some r,
                 puzzlesCompleted := puzzlesCompleted g + 1,
                 totalMoves := totalMoves g + moves\<rparr>;
          g2 = (if rid r \<in> set (completedRecipes g1) then g1
                else g1\<lparr>completedRecipes := completedRecipes g1 @ [rid r]\<rparr>)
      in case buff r of
           None \<Rightarrow> g2
         | Some b \<Rightarrow> g2\<lparr>pet := fold applyBuff b (pet g2)\<rparr>)"

definition onPuzzleFail :: "gameState \<Rightarrow> gameState" where
  "onPuzzleFail g =
     g\<lparr>lastResult := Some Fail, puzzlesFailed := puzzlesFailed g + 1,
       pet := (pet g)\<lparr>hp := max 0 (hp (pet g) - 10)\<rparr>\<rparr>"

section \<open>RecipeSystem\<close>

definition getRecipeById :: "string \<Rightarrow> recipe option" where
  "getRecipeById recipeId = find (\<lambda>r. rid r = recipeId) RECIPES"

text \<open>\<open>x || d\<close> on an optional number: a missing field and 0 are both falsy.\<close>

definition orDefault :: "'a::zero option \<Rightarrow> 'a \<Rightarrow> 'a" where
  "orDefault x d = (case x of None \<Rightarrow> d | Some v \<Rightarrow> if v = 0 then d else v)"

definition applyRecipeConfig :: "recipe \<Rightarrow> gameConfig \<Rightarrow> gameConfig" where
  "applyRecipeConfig r c =
     c\<lparr>GRID_SIZE := orDefault (gridSize r) 3,
       OPTIMAL_MOVES := orDefault (optimalMoves r) 20,
       MAX_MOVES := orDefault (maxMoves r) 50,
       DIFFICULTY := (case difficulty r of None \<Rightarrow> ''Normal''
                      | Some d \<Rightarrow> if d = [] then ''Normal'' else d)\<rparr>"

definition validateRecipe :: "recipe option \<Rightarrow> bool" where
  "validateRecipe ro =
     (case ro of None \<Rightarrow> False
      | Some r \<Rightarrow> rid r \<noteq> [] \<and> rname r \<noteq> [] \<and> rsequence r \<noteq> [])"

section \<open>Rating\<close>

text \<open>
  \<open>calculateRating\<close> reads the module variable \<open>moveCount\<close> and
  \<open>GAME_CONFIG.OPTIMAL_MOVES\<close>. The products \<open>optimal * 1.5\<close> and \<open>optimal * 2\<close>
  are taken over the reals; on the integers a move counter and a threshold can hold,
  the double-precision product is exact.
\<close>

definition calculateRating :: "world \<Rightarrow> rating" where
  "calculateRating s =
     (let optimal = OPTIMAL_MOVES (GAME_CONFIG s) in
      if moveCount s \<le> optimal then ThreeStars
      else if real_of_int (moveCount s) \<le> real_of_int optimal * 1.5 then TwoStars
      else if real_of_int (moveCount s) \<le> real_of_int optimal * 2 then OneStar
      else Skull)"

section \<open>GridManager\<close>

text \<open>
  Failures of the JavaScript program are values. \<open>TypeError\<close> is the exception
  thrown when a property of \<open>null\<close> or \<open>undefined\<close> is read or written.
  A cell write outside the stored grid is reported as \<open>OutsideGrid\<close> (JavaScript
  throws a TypeError for a missing row and grows the row array for a missing column);
  \<open>NoSuchTile\<close> stands for a tile index that names no tile object, which a
  JavaScript object reference cannot be.
\<close>

datatype jsError = TypeError | OutsideGrid | NoSuchTile

definition inGrid :: "grid \<Rightarrow> nat \<Rightarrow> nat \<Rightarrow> bool" where
  "inGrid g r c \<longleftrightarrow> r < length g \<and> c < length (g ! r)"

definition setCell :: "nat \<Rightarrow> nat \<Rightarrow> int \<Rightarrow> grid \<Rightarrow> grid" where
  "setCell r c v g = g[r := (g ! r)[c := v]]"

text \<open>
  Pixel centre of a column or row: \<open>GRID_OFFSET + k * (TILE_SIZE + TILE_SPACING) +
  TILE_SIZE / 2\<close> with the constants 45 and 180, 120, 10 of \<open>GAME_CONFIG\<close>.
\<close>

definition cellX :: "nat \<Rightarrow> int" where
  "cellX c = 45 + int c * (120 + 10) + 120 div 2"

definition cellY :: "nat \<Rightarrow> int" where
  "cellY r = 180 + int r * (120 + 10) + 120 div 2"

definition createTile :: "nat \<Rightarrow> nat \<Rightarrow> int \<Rightarrow> tile" where
  "createTile r c v =
     \<lparr>tid = v, currentRow = r, currentCol = c, containerX = cellX c, containerY = cellY r\<rparr>"

subsection \<open>createGrid\<close>

text \<open>
  The inner loop of the recipe branch, over the columns still to visit. The
  accumulator is the row built so far, the \<open>tiles\<close> array and \<open>sequenceIndex\<close>.
  Each assignment \<open>gridData[row][col] = v\<close> lands one past the end of the fresh row.
\<close>

fun recipeRow ::
  "int list \<Rightarrow> nat \<Rightarrow> nat \<Rightarrow> nat list \<Rightarrow> int list \<times> tile list \<times> nat
     \<Rightarrow> int list \<times> tile list \<times> nat" where
  "recipeRow sq n r [] acc = acc"
| "recipeRow sq n r (c # cs) (cells, ts, si) =
     (let cellIndex = r * n + c;
          v = (if cellIndex < length sq then sq ! si else 0);
          si' = (if cellIndex < length sq then Suc si else si)
      in recipeRow sq n r cs
           (cells @ [v], if v \<noteq> 0 then ts @ [createTile r c v] else ts, si'))"

fun recipeRows ::
  "int list \<Rightarrow> nat \<Rightarrow> nat list \<Rightarrow> grid \<times> tile list \<times> nat \<Rightarrow> grid \<times> tile list \<times> nat" where
  "recipeRows sq n [] acc = acc"
| "recipeRows sq n (r # rs) (g, ts, si) =
     (case recipeRow sq n r [0..<n] ([], ts, si) of
        (cells, ts', si') \<Rightarrow> recipeRows sq n rs (g @ [cells], ts', si'))"

text \<open>
  The search for the empty cell: rows and columns are visited from the last to the
  first; \<open>break\<close> leaves the column loop only.
\<close>

fun scanRowForEmpty :: "grid \<Rightarrow> nat \<Rightarrow> nat list \<Rightarrow> pos \<Rightarrow> pos" where
  "scanRowForEmpty g r [] e = e"
| "scanRowForEmpty g r (c # cs) e =
     (if g ! r ! c = 0 then \<lparr>row = r, col = c\<rparr> else scanRowForEmpty g r cs e)"

fun findEmpty :: "grid \<Rightarrow> nat \<Rightarrow> nat list \<Rightarrow> pos \<Rightarrow> pos" where
  "findEmpty g n [] e = e"
| "findEmpty g n (r # rs) e = findEmpty g n rs (scanRowForEmpty g r (rev [0..<n]) e)"

text \<open>
  The legacy branch: values 1 .. n*n - 1 row by row, then 0, and the empty
  position in the last cell (for a grid of size 0, which no caller asks for,
  JavaScript computes the index -1 where the model has 0).
\<close>

definition legacyValue :: "nat \<Rightarrow> nat \<Rightarrow> nat \<Rightarrow> int" where
  "legacyValue n r c =
     (let tileValue = int r * int n + int c + 1
      in if tileValue \<le> int n * int n - 1 then tileValue else 0)"

fun legacyRow ::
  "nat \<Rightarrow> nat \<Rightarrow> nat list \<Rightarrow> int list \<times> tile list \<Rightarrow> int list \<times> tile list" where
  "legacyRow n r [] acc = acc"
| "legacyRow n r (c # cs) (cells, ts) =
     (let v = legacyValue n r c
      in legacyRow n r cs (cells @ [v], if v \<noteq> 0 then ts @ [createTile r c v] else ts))"

fun legacyRows :: "nat \<Rightarrow> nat list \<Rightarrow> grid \<times> tile list \<Rightarrow> grid \<times> tile list" where
  "legacyRows n [] acc = acc"
| "legacyRows n (r # rs) (g, ts) =
     (case legacyRow n r [0..<n] ([], ts) of
        (cells, ts') \<Rightarrow> legacyRows n rs (g @ [cells], ts'))"

definition createGrid :: "nat \<Rightarrow> world \<Rightarrow> world" where
  "createGrid n s =
     (let s1 =
        (case (if RECIPE_MODE (GAME_CONFIG s) then currentRecipe (GameState s) else None) of
           Some r \<Rightarrow>
             (case recipeRows (rsequence r) n [0..<n] ([], [], 0) of
                (g, ts, si) \<Rightarrow>
                  s\<lparr>tiles := ts, gridData := g,
                    emptyPos := findEmpty g n (rev [0..<n]) (emptyPos s)\<rparr>)
         | None \<Rightarrow>
             (case legacyRows n [0..<n] ([], []) of
                (g, ts) \<Rightarrow>
                  s\<lparr>tiles := ts, gridData := g, emptyPos := \<lparr>row = n - 1, col = n - 1\<rparr>\<rparr>))
      in s1\<lparr>moveCount := 0, isWon := False, hasFailed := False\<rparr>)"

subsection \<open>Moves\<close>

definition canTileMove :: "tile \<Rightarrow> world \<Rightarrow> bool" where
  "canTileMove t s =
     (let rowDiff = \<bar>int (currentRow t) - int (row (emptyPos s))\<bar>;
          colDiff = \<bar>int (currentCol t) - int (col (emptyPos s))\<bar>
      in (rowDiff = 1 \<and> colDiff = 0) \<or> (rowDiff = 0 \<and> colDiff = 1))"

text \<open>
  The recipe branch of \<open>checkWinCondition\<close>: \<open>targetSequence.every\<close> over the
  flattened grid. An index past the end of the flattened grid reads \<open>undefined\<close>,
  which is not equal to any id.
\<close>

definition recipeSolved :: "int list \<Rightarrow> grid \<Rightarrow> bool" where
  "recipeSolved targetSequence g =
     (let flatGrid = concat g
      in list_all (\<lambda>index. index < length flatGrid \<and> flatGrid ! index = targetSequence ! index)
           [0..<length targetSequence])"

text \<open>
  The legacy branch returns at the first cell that differs; a cell outside the
  stored grid reads \<open>undefined\<close> and differs as well.
\<close>

definition legacySolved :: "nat \<Rightarrow> grid \<Rightarrow> bool" where
  "legacySolved n g =
     list_all (\<lambda>r. list_all (\<lambda>c.
        inGrid g r c \<and>
        (if r = n - 1 \<and> c = n - 1 then g ! r ! c = 0
         else g ! r ! c = int r * int n + int c + 1)) [0..<n]) [0..<n]"

text \<open>
  \<open>onPuzzleSolved\<close> hands \<open>GameState.currentRecipe\<close> to the completion hook, which
  reads \<open>recipe.id\<close>: without a recipe that read throws.
\<close>

definition onPuzzleSolved :: "world \<Rightarrow> jsError + world" where
  "onPuzzleSolved s =
     (let s1 = s\<lparr>isWon := True\<rparr>;
          rating = calculateRating s1
      in case currentRecipe (GameState s1) of
           None \<Rightarrow> Inl TypeError
         | Some r \<Rightarrow>
             Inr (s1\<lparr>GameState := onPuzzleComplete r (moveCount s1) rating (GameState s1)\<rparr>))"

definition checkWinCondition :: "world \<Rightarrow> jsError + world" where
  "checkWinCondition s =
     (case (if RECIPE_MODE (GAME_CONFIG s) then currentRecipe (GameState s) else None) of
        Some r \<Rightarrow>
          if recipeSolved (rsequence r) (gridData s) then onPuzzleSolved s else Inr s
      | None \<Rightarrow>
          if legacySolved (GRID_SIZE (GAME_CONFIG s)) (gridData s) then onPuzzleSolved s
          else Inr s)"

text \<open>
  \<open>triggerFailState\<close>: the flag and the failure hook. The \<open>resetPuzzle\<close> it schedules
  two seconds later is the separate event \<open>resetPuzzle\<close> below.
\<close>

definition triggerFailState :: "world \<Rightarrow> world" where
  "triggerFailState s = s\<lparr>hasFailed := True, GameState := onPuzzleFail (GameState s)\<rparr>"

text \<open>
  The \<open>onComplete\<close> callback of the slide tween of \<open>moveTile\<close>: the container has
  arrived at the target, then the player-move bookkeeping runs. The continuation
  argument of \<open>moveTile\<close> is used by the shuffle only and is the recursive call of
  \<open>makeShuffleMove\<close> below.
\<close>

definition moveTileComplete :: "nat \<Rightarrow> int \<Rightarrow> int \<Rightarrow> bool \<Rightarrow> world \<Rightarrow> jsError + world" where
  "moveTileComplete i targetX targetY isPlayerMove s =
     (let s1 = s\<lparr>isAnimating := False,
                 tiles := (tiles s)[i := (tiles s ! i)\<lparr>containerX := targetX,
                                                     containerY := targetY\<rparr>]\<rparr>
      in if isPlayerMove then
           (let s2 = s1\<lparr>moveCount := moveCount s1 + 1\<rparr>
            in if moveCount s2 \<ge> MAX_MOVES (GAME_CONFIG s2) \<and> \<not> isWon s2
               then Inr (triggerFailState s2)
               else checkWinCondition s2)
         else Inr s1)"

text \<open>
  \<open>moveTile\<close>: the synchronous swap followed by the tween's completion. There is
  no legality test in it.
\<close>

definition moveTile :: "nat \<Rightarrow> bool \<Rightarrow> world \<Rightarrow> jsError + world" where
  "moveTile i isPlayerMove s =
     (if \<not> i < length (tiles s) then Inl NoSuchTile
      else
        (let t = tiles s ! i; e = emptyPos s; g = gridData s
         in if \<not> (inGrid g (currentRow t) (currentCol t) \<and> inGrid g (row e) (col e))
            then Inl OutsideGrid
            else
              (let targetX = cellX (col e);
                   targetY = cellY (row e);
                   g1 = setCell (currentRow t) (currentCol t) 0 g;
                   g2 = setCell (row e) (col e) (tid t) g1;
                   oldRow = currentRow t;
                   oldCol = currentCol t;
                   t' = t\<lparr>currentRow := row e, currentCol := col e\<rparr>
               in moveTileComplete i targetX targetY isPlayerMove
                    (s\<lparr>isAnimating := True, gridData := g2, tiles := (tiles s)[i := t'],
                       emptyPos := \<lparr>row = oldRow, col = oldCol\<rparr>\<rparr>))))"

definition onTileClick :: "nat \<Rightarrow> world \<Rightarrow> jsError + world" where
  "onTileClick i s =
     (if \<not> i < length (tiles s) then Inl NoSuchTile
      else if isAnimating s \<or> isShuffling s \<or> isWon s \<or> hasFailed s then Inr s
      else if \<not> canTileMove (tiles s ! i) s then Inr s
      else moveTile i True s)"

section \<open>ShuffleSystem\<close>

subsection \<open>resetGridToSolved\<close>

text \<open>
  Here the cells are written into the grid that is already stored, so every write
  is checked against it.
\<close>

fun solvedRow ::
  "int list \<Rightarrow> nat \<Rightarrow> nat \<Rightarrow> nat list \<Rightarrow> grid \<times> nat \<Rightarrow> jsError + grid \<times> nat" where
  "solvedRow sq n r [] acc = Inr acc"
| "solvedRow sq n r (c # cs) (g, si) =
     (if \<not> inGrid g r c then Inl OutsideGrid
      else
        (let cellIndex = r * n + c;
             v = (if cellIndex < length sq then sq ! si else 0);
             si' = (if cellIndex < length sq then Suc si else si)
         in solvedRow sq n r cs (setCell r c v g, si')))"

fun solvedRows ::
  "int list \<Rightarrow> nat \<Rightarrow> nat list \<Rightarrow> grid \<times> nat \<Rightarrow> jsError + grid \<times> nat" where
  "solvedRows sq n [] acc = Inr acc"
| "solvedRows sq n (r # rs) acc =
     (case solvedRow sq n r [0..<n] acc of
        Inl e \<Rightarrow> Inl e
      | Inr acc' \<Rightarrow> solvedRows sq n rs acc')"

fun legacySolvedRow :: "nat \<Rightarrow> nat \<Rightarrow> nat list \<Rightarrow> grid \<Rightarrow> jsError + grid" where
  "legacySolvedRow n r [] g = Inr g"
| "legacySolvedRow n r (c # cs) g =
     (if \<not> inGrid g r c then Inl OutsideGrid
      else legacySolvedRow n r cs (setCell r c (legacyValue n r c) g))"

fun legacySolvedRows :: "nat \<Rightarrow> nat list \<Rightarrow> grid \<Rightarrow> jsError + grid" where
  "legacySolvedRows n [] g = Inr g"
| "legacySolvedRows n (r # rs) g =
     (case legacySolvedRow n r [0..<n] g of
        Inl e \<Rightarrow> Inl e
      | Inr g' \<Rightarrow> legacySolvedRows n rs g')"

text \<open>
  The search for a tile's cell by id. \<open>targetRow\<close> and \<open>targetCol\<close> start at -1
  (\<open>None\<close>); \<open>break\<close> leaves the column loop only, so later rows are still visited.
\<close>

fun scanRowForId :: "grid \<Rightarrow> nat \<Rightarrow> nat list \<Rightarrow> int \<Rightarrow> (nat \<times> nat) option \<Rightarrow> (nat \<times> nat) option" where
  "scanRowForId g r [] v target = target"
| "scanRowForId g r (c # cs) v target =
     (if g ! r ! c = v then Some (r, c) else scanRowForId g r cs v target)"

fun findTarget :: "grid \<Rightarrow> nat \<Rightarrow> nat list \<Rightarrow> int \<Rightarrow> (nat \<times> nat) option \<Rightarrow> (nat \<times> nat) option" where
  "findTarget g n [] v target = target"
| "findTarget g n (r # rs) v target = findTarget g n rs v (scanRowForId g r [0..<n] v target)"

definition relocateTile :: "grid \<Rightarrow> nat \<Rightarrow> tile \<Rightarrow> tile" where
  "relocateTile g n t =
     (case findTarget g n [0..<n] (tid t) None of
        None \<Rightarrow> t
      | Some (targetRow, targetCol) \<Rightarrow>
          t\<lparr>currentRow := targetRow, currentCol := targetCol,
            containerX := cellX targetCol, containerY := cellY targetRow\<rparr>)"

definition resetGridToSolved :: "world \<Rightarrow> jsError + world" where
  "resetGridToSolved s =
     (let n = GRID_SIZE (GAME_CONFIG s)
      in case (case (if RECIPE_MODE (GAME_CONFIG s) then currentRecipe (GameState s) else None) of
                 Some r \<Rightarrow>
                   (case solvedRows (rsequence r) n [0..<n] (gridData s, 0) of
                      Inl e \<Rightarrow> Inl e
                    | Inr (g, si) \<Rightarrow> Inr (g, findEmpty g n (rev [0..<n]) (emptyPos s)))
               | None \<Rightarrow>
                   (case legacySolvedRows n [0..<n] (gridData s) of
                      Inl e \<Rightarrow> Inl e
                    | Inr g \<Rightarrow> Inr (g, \<lparr>row = n - 1, col = n - 1\<rparr>))) of
           Inl e \<Rightarrow> Inl e
         | Inr (g, e) \<Rightarrow>
             Inr (s\<lparr>gridData := g, emptyPos := e, tiles := map (relocateTile g n) (tiles s)\<rparr>))"

subsection \<open>Random draws\<close>

text \<open>
  A value returned by \<open>Math.random()\<close>: a number in the half-open interval from 0
  to 1. The calls a run makes are numbered; \<open>rng k\<close> is the value of call \<open>k\<close>.
\<close>

typedef draw = "{r::real. 0 \<le> r \<and> r < 1}"
  by (rule exI [of _ 0]) simp

setup_lifting type_definition_draw

text \<open>\<open>Math.floor(Math.random() * n)\<close>.\<close>

lift_definition randomIndex :: "draw \<Rightarrow> nat \<Rightarrow> nat" is "\<lambda>r n. nat \<lfloor>r * real n\<rfloor>" .

text \<open>\<open>Math.random() < p\<close>.\<close>

lift_definition drawBelow :: "draw \<Rightarrow> real \<Rightarrow> bool" is "\<lambda>r p. r < p" .

lift_definition lowDraw :: draw is 0
  by simp

lift_definition highDraw :: draw is "9 / 10"
  by simp

subsection \<open>performHybridShuffle\<close>

text \<open>
  The selection loop of a hybrid round: up to \<open>numTilesToSwap\<close> tiles are drawn
  without replacement from a copy of \<open>tiles\<close> (\<open>splice\<close> removes the drawn one).
\<close>

fun pickTiles ::
  "nat \<Rightarrow> (nat \<Rightarrow> draw) \<Rightarrow> nat \<Rightarrow> nat list \<Rightarrow> nat list \<Rightarrow> nat list \<times> nat" where
  "pickTiles 0 rng k availableTiles tilesToAnimate = (tilesToAnimate, k)"
| "pickTiles (Suc m) rng k availableTiles tilesToAnimate =
     (if length availableTiles > 0 then
        (let randomIndex = randomIndex (rng k) (length availableTiles)
         in pickTiles m rng (Suc k)
              (take randomIndex availableTiles @ drop (Suc randomIndex) availableTiles)
              (tilesToAnimate @ [availableTiles ! randomIndex]))
      else (tilesToAnimate, k))"

definition permutePositions :: "(int \<times> int) list \<Rightarrow> (int \<times> int) list" where
  "permutePositions ps =
     (if length ps = 2 then [ps ! 1, ps ! 0]
      else if length ps = 3 then [ps ! 1, ps ! 2, ps ! 0]
      else ps)"

text \<open>
  A tween on a container, played to its end: the container holds the target
  coordinates. The swap tweens of a round carry every chosen tile to its permuted
  position; the tween started in each one's \<open>onComplete\<close> brings the tile back to
  the pixel centre of its logical cell.
\<close>

definition slideTo :: "nat \<Rightarrow> int \<times> int \<Rightarrow> tile list \<Rightarrow> tile list" where
  "slideTo i p ts = ts[i := (ts ! i)\<lparr>containerX := fst p, containerY := snd p\<rparr>]"

definition slideHome :: "nat \<Rightarrow> tile list \<Rightarrow> tile list" where
  "slideHome i ts =
     slideTo i (cellX (currentCol (ts ! i)), cellY (currentRow (ts ! i))) ts"

text \<open>
  One call of \<open>makeHybridMove\<close> with everything it schedules. The number of
  hybrid rounds is read once. A round that selected no tile starts no tween, so no
  callback counts the round or schedules the next one: the pass stops there and
  \<open>isShuffling\<close> stays set.
\<close>

function makeHybridMove ::
  "nat \<Rightarrow> (nat \<Rightarrow> draw) \<Rightarrow> nat \<Rightarrow> nat \<Rightarrow> world \<Rightarrow> world" where
  "makeHybridMove hybridMoves rng k currentHybridMove s =
     (if currentHybridMove \<ge> hybridMoves then s\<lparr>isShuffling := False\<rparr>
      else
        (let numTilesToSwap = (if drawBelow (rng k) 0.7 then 2 else 3);
             (tilesToAnimate, k1) =
                pickTiles numTilesToSwap rng (Suc k) [0..<length (tiles s)] [];
             originalPositions =
                map (\<lambda>i. (containerX (tiles s ! i), containerY (tiles s ! i))) tilesToAnimate;
             targetPositions = permutePositions originalPositions;
             k2 = Suc k1
         in if tilesToAnimate = [] then s
            else
              makeHybridMove hybridMoves rng k2 (Suc currentHybridMove)
                (s\<lparr>tiles :=
                     fold slideHome tilesToAnimate
                       (fold (\<lambda>(i, p). slideTo i p) (zip tilesToAnimate targetPositions)
                          (tiles s))\<rparr>)))"
  by pat_completeness auto
termination
  by (relation "measure (\<lambda>(hybridMoves, rng, k, currentHybridMove, s).
                    hybridMoves - currentHybridMove)") auto

declare makeHybridMove.simps [simp del]

definition performHybridShuffle :: "(nat \<Rightarrow> draw) \<Rightarrow> nat \<Rightarrow> world \<Rightarrow> world" where
  "performHybridShuffle rng k s =
     makeHybridMove (HYBRID_SHUFFLE_COUNT (GAME_CONFIG s)) rng k 0 s"

subsection \<open>performAnimatedShuffle\<close>

definition movableTiles :: "world \<Rightarrow> nat list" where
  "movableTiles s = filter (\<lambda>i. canTileMove (tiles s ! i) s) [0..<length (tiles s)]"

text \<open>
  The candidates of a shuffle step after the no-backtracking filter, which compares
  ids with the tile moved last.
\<close>

definition shuffleCandidates :: "nat option \<Rightarrow> world \<Rightarrow> nat list" where
  "shuffleCandidates lastMovedTile s =
     (case lastMovedTile of
        Some l \<Rightarrow>
          if length (movableTiles s) > 1
          then filter (\<lambda>i. tid (tiles s ! i) \<noteq> tid (tiles s ! l)) (movableTiles s)
          else movableTiles s
      | None \<Rightarrow> movableTiles s)"

text \<open>
  \<open>makeShuffleMove\<close> with the moves it chains through the tween callbacks. Beside
  the final world it returns a log with one entry per step: how many legal moves
  there were, and the tile moved (none when the step was skipped). A step that
  moves a tile makes two calls of \<open>Math.random()\<close>: the choice and the duration
  variance, which only changes the length of the tween.
\<close>

type_synonym shuffleLog = "(nat \<times> nat option) list"

function makeShuffleMove ::
  "nat \<Rightarrow> (nat \<Rightarrow> draw) \<Rightarrow> nat \<Rightarrow> nat \<Rightarrow> nat option \<Rightarrow> world \<Rightarrow> jsError + shuffleLog \<times> world" where
  "makeShuffleMove moves rng k currentMove lastMovedTile s =
     (if currentMove \<ge> moves then
        Inr ([], if ENABLE_HYBRID_SHUFFLE (GAME_CONFIG s) then performHybridShuffle rng k s
                 else s\<lparr>isShuffling := False\<rparr>)
      else
        (let movable = shuffleCandidates lastMovedTile s
         in if length movable > 0 then
              (let randomTile = movable ! randomIndex (rng k) (length movable)
               in case moveTile randomTile False s of
                    Inl e \<Rightarrow> Inl e
                  | Inr s' \<Rightarrow>
                      (case makeShuffleMove moves rng (k + 2) (Suc currentMove)
                              (Some randomTile) s' of
                         Inl e \<Rightarrow> Inl e
                       | Inr (steps, s'') \<Rightarrow>
                           Inr ((length (movableTiles s), Some randomTile) # steps, s'')))
            else
              (case makeShuffleMove moves rng k (Suc currentMove) lastMovedTile s of
                 Inl e \<Rightarrow> Inl e
               | Inr (steps, s'') \<Rightarrow> Inr ((length (movableTiles s), None) # steps, s''))))"
  by pat_completeness auto
termination
  by (relation "measure (\<lambda>(moves, rng, k, currentMove, lastMovedTile, s).
                    moves - currentMove)") auto

declare makeShuffleMove.simps [simp del]

definition performAnimatedShuffle :: "(nat \<Rightarrow> draw) \<Rightarrow> world \<Rightarrow> jsError + shuffleLog \<times> world" where
  "performAnimatedShuffle rng s =
     (case resetGridToSolved (s\<lparr>isShuffling := True\<rparr>) of
        Inl e \<Rightarrow> Inl e
      | Inr s1 \<Rightarrow> makeShuffleMove (SHUFFLE_MOVE_COUNT (GAME_CONFIG s1)) rng 0 0 None s1)"

section \<open>Start and reset\<close>

definition resetPuzzle :: "(nat \<Rightarrow> draw) \<Rightarrow> world \<Rightarrow> jsError + shuffleLog \<times> world" where
  "resetPuzzle rng s =
     performAnimatedShuffle rng (s\<lparr>moveCount := 0, isWon := False, hasFailed := False\<rparr>)"

text \<open>The recipe block of \<open>create\<close>, and \<open>create\<close> up to its call of \<open>createGrid\<close>.\<close>

definition setupRecipe :: "world \<Rightarrow> world" where
  "setupRecipe s =
     (if RECIPE_MODE (GAME_CONFIG s) then
        (let found = getRecipeById (DEFAULT_RECIPE_ID (GAME_CONFIG s));
             r = (case found of
                    Some r0 \<Rightarrow> if validateRecipe found then r0 else RECIPES ! 0
                  | None \<Rightarrow> RECIPES ! 0)
         in s\<lparr>GameState := (GameState s)\<lparr>currentRecipe := Some r\<rparr>,
              GAME_CONFIG := applyRecipeConfig r (GAME_CONFIG s)\<rparr>)
      else s)"

definition createBoard :: "world \<Rightarrow> world" where
  "createBoard s = (let s1 = setupRecipe s in createGrid (GRID_SIZE (GAME_CONFIG s1)) s1)"

definition create :: "(nat \<Rightarrow> draw) \<Rightarrow> world \<Rightarrow> jsError + shuffleLog \<times> world" where
  "create rng s = performAnimatedShuffle rng (createBoard s)"

section \<open>Sessions\<close>

text \<open>
  The values \<open>GameState\<close> can take. Its fields are written in four places:
  \<open>create\<close> and \<open>cycleToNextRecipe\<close> store a recipe of the catalogue in
  \<open>currentRecipe\<close>; \<open>onPuzzleSolved\<close> calls the completion hook with that recipe, the
  move counter and the rating; \<open>triggerFailState\<close> calls the failure hook.
\<close>

inductive_set reachableGameStates :: "gameState set" where
  start: "initialGameState \<in> reachableGameStates"
| select: "g \<in> reachableGameStates \<Longrightarrow> r \<in> set RECIPES
           \<Longrightarrow> g\<lparr>currentRecipe := Some r\<rparr> \<in> reachableGameStates"
| complete: "g \<in> reachableGameStates \<Longrightarrow> r \<in> set RECIPES
           \<Longrightarrow> onPuzzleComplete r moves rating g \<in> reachableGameStates"
| fail: "g \<in> reachableGameStates \<Longrightarrow> onPuzzleFail g \<in> reachableGameStates"

text \<open>
  A board of the default recipe one move away from the solved layout (the tomato
  tile has been slid down into the empty cell), with a move budget of 50 and a
  given number of moves already made.
\<close>

definition nearlySolved :: "int \<Rightarrow> world" where
  "nearlySolved m =
     (createBoard initialWorld)
       \<lparr>tiles := [\<lparr>tid = 1, currentRow = 0, currentCol = 0, containerX = 105, containerY = 240\<rparr>,
                  \<lparr>tid = 2, currentRow = 0, currentCol = 1, containerX = 235, containerY = 240\<rparr>,
                  \<lparr>tid = 3, currentRow = 1, currentCol = 2, containerX = 365, containerY = 370\<rparr>,
                  \<lparr>tid = 8, currentRow = 1, currentCol = 0, containerX = 105, containerY = 370\<rparr>],
        gridData := [[1, 2, 0], [8, 0, 3], [0, 0, 0]],
        emptyPos := \<lparr>row = 0, col = 2\<rparr>,
        moveCount := m,
        GAME_CONFIG := (GAME_CONFIG (createBoard initialWorld))\<lparr>MAX_MOVES := 50\<rparr>\<rparr>"

text \<open>The start board of the default recipe with a shuffle of six moves.\<close>

definition shortShuffle :: world where
  "shortShuffle =
     (createBoard initialWorld)
       \<lparr>GAME_CONFIG := (GAME_CONFIG (createBoard initialWorld))\<lparr>SHUFFLE_MOVE_COUNT := 6\<rparr>\<rparr>"

section \<open>Properties\<close>

text \<open>The pet's health lies between 0 and its maximum.\<close>

definition healthy :: "petStats \<Rightarrow> bool" where
  "healthy p \<longleftrightarrow> 0 \<le> hp p \<and> hp p \<le> maxHp p"

text \<open>
  The logical part of a tile and of the board: everything but the render
  coordinates of the containers.
\<close>

definition logicalTile :: "tile \<Rightarrow> int \<times> nat \<times> nat" where
  "logicalTile t = (tid t, currentRow t, currentCol t)"

definition logicalBoard :: "world \<Rightarrow> grid \<times> pos \<times> (int \<times> nat \<times> nat) list" where
  "logicalBoard s = (gridData s, emptyPos s, map logicalTile (tiles s))"

text \<open>
  A shuffle log in which no step with more than one legal move moves the tile that
  was moved last before it.
\<close>

fun noBacktrackFrom :: "nat option \<Rightarrow> shuffleLog \<Rightarrow> bool" where
  "noBacktrackFrom lastMoved [] = True"
| "noBacktrackFrom lastMoved ((n, None) # steps) = noBacktrackFrom lastMoved steps"
| "noBacktrackFrom lastMoved ((n, Some b) # steps) =
     ((case lastMoved of Some a \<Rightarrow> n \<le> 1 \<or> a \<noteq> b | None \<Rightarrow> True)
      \<and> noBacktrackFrom (Some b) steps)"

text \<open>
  The spec's data model of a recipe, as far as the board depends on it: the ids of
  the sequence are nonzero and pairwise different, and the sequence leaves at least
  one cell of the grid free. Every recipe of the catalogue is of this kind.
\<close>

definition wellFormedRecipe :: "recipe \<Rightarrow> bool" where
  "wellFormedRecipe r \<longleftrightarrow>
     distinct (rsequence r) \<and> 0 \<notin> set (rsequence r) \<and>
     length (rsequence r) < orDefault (gridSize r) 3 * orDefault (gridSize r) 3"

text \<open>
  The assignments by which \<open>create\<close> and \<open>cycleToNextRecipe\<close> make a recipe the
  active one, before they call \<open>createGrid\<close>.
\<close>

definition selectRecipe :: "recipe \<Rightarrow> world \<Rightarrow> world" where
  "selectRecipe r w =
     w\<lparr>GameState := (GameState w)\<lparr>currentRecipe := Some r\<rparr>,
       GAME_CONFIG := applyRecipeConfig r (GAME_CONFIG w)\<rparr>"

text \<open>
  The worlds a session with active recipe \<open>r\<close> passes through in recipe mode. A
  board is created for the recipe (from any earlier world); a shuffle resets it to
  the solved layout, applies moves chosen among the shuffle candidates, and ends
  with or without the hybrid pass; the player clicks tiles; \<open>resetPuzzle\<close> and
  \<open>cycleToNextRecipe\<close> clear the counters. The random choices are left open.
\<close>

inductive reachable :: "recipe \<Rightarrow> world \<Rightarrow> bool" for r :: recipe where
  created:
    "RECIPE_MODE (GAME_CONFIG w)
     \<Longrightarrow> reachable r (createGrid (GRID_SIZE (GAME_CONFIG (selectRecipe r w))) (selectRecipe r w))"
| solvedReset:
    "reachable r s \<Longrightarrow> resetGridToSolved (s\<lparr>isShuffling := True\<rparr>) = Inr s' \<Longrightarrow> reachable r s'"
| shuffleMove:
    "reachable r s \<Longrightarrow> i \<in> set (shuffleCandidates l s) \<Longrightarrow> moveTile i False s = Inr s'
     \<Longrightarrow> reachable r s'"
| hybridPass:
    "reachable r s \<Longrightarrow> reachable r (performHybridShuffle rng k s)"
| shuffleDone:
    "reachable r s \<Longrightarrow> reachable r (s\<lparr>isShuffling := False\<rparr>)"
| playerMove:
    "reachable r s \<Longrightarrow> onTileClick i s = Inr s' \<Longrightarrow> reachable r s'"
| countersCleared:
    "reachable r s \<Longrightarrow> reachable r (s\<lparr>moveCount := 0, isWon := False, hasFailed := False\<rparr>)"

text \<open>The multiset of the nonzero values of the grid, and the number of its zeros.\<close>

definition nonzeroCells :: "grid \<Rightarrow> int multiset" where
  "nonzeroCells g = mset (filter (\<lambda>v. v \<noteq> 0) (concat g))"

definition zeroCount :: "grid \<Rightarrow> nat" where
  "zeroCount g = length (filter (\<lambda>v. v = 0) (concat g))"

text \<open>A grid of \<open>n\<close> rows of \<open>n\<close> cells, and the solved layout of a sequence.\<close>

definition regularGrid :: "nat \<Rightarrow> grid \<Rightarrow> bool" where
  "regularGrid n g \<longleftrightarrow> length g = n \<and> (\<forall>rw \<in> set g. length rw = n)"

definition cellOf :: "int list \<Rightarrow> nat \<Rightarrow> int" where
  "cellOf sq k = (if k < length sq then sq ! k else 0)"

definition solvedGrid :: "int list \<Rightarrow> nat \<Rightarrow> grid" where
  "solvedGrid sq n = map (\<lambda>r. map (\<lambda>c. cellOf sq (r * n + c)) [0..<n]) [0..<n]"

text \<open>
  The board invariant of a session with recipe \<open>r\<close>: the configuration belongs to
  the recipe, the grid is square, the empty position is a cell holding 0, every
  tile stands on the cell that holds its (nonzero) id, no two tiles share a cell,
  the tiles carry the ids of the sequence in order, and the nonzero cells are the
  ids of the sequence.
\<close>

definition tileOnCell :: "nat \<Rightarrow> grid \<Rightarrow> tile \<Rightarrow> bool" where
  "tileOnCell n g t \<longleftrightarrow>
     currentRow t < n \<and> currentCol t < n \<and> g ! currentRow t ! currentCol t = tid t \<and> tid t \<noteq> 0"

definition boardInv :: "recipe \<Rightarrow> world \<Rightarrow> bool" where
  "boardInv r s \<longleftrightarrow>
     RECIPE_MODE (GAME_CONFIG s) \<and> currentRecipe (GameState s) = Some r \<and>
     orDefault (gridSize r) 3 = GRID_SIZE (GAME_CONFIG s) \<and>
     regularGrid (GRID_SIZE (GAME_CONFIG s)) (gridData s) \<and>
     row (emptyPos s) < GRID_SIZE (GAME_CONFIG s) \<and>
     col (emptyPos s) < GRID_SIZE (GAME_CONFIG s) \<and>
     gridData s ! row (emptyPos s) ! col (emptyPos s) = 0 \<and>
     list_all (tileOnCell (GRID_SIZE (GAME_CONFIG s)) (gridData s)) (tiles s) \<and>
     distinct (map (\<lambda>t. (currentRow t, currentCol t)) (tiles s)) \<and>
     map tid (tiles s) = rsequence r \<and>
     nonzeroCells (gridData s) = mset (rsequence r)"

section \<open>Evaluating the catalogue and the start of a session\<close>

lemmas catalogue_defs =
  RECIPES_def classic_stack_def leafy_stack_def cheesy_beast_def protein_power_def
  garden_delight_def deluxe_combo_def

lemmas start_defs =
  createBoard_def setupRecipe_def initialWorld_def initialConfig_def initialGameState_def
  getRecipeById_def validateRecipe_def applyRecipeConfig_def orDefault_def createGrid_def
  createTile_def cellX_def cellY_def

lemmas move_defs =
  moveTile_def moveTileComplete_def triggerFailState_def checkWinCondition_def
  onPuzzleSolved_def onPuzzleComplete_def onPuzzleFail_def onTileClick_def canTileMove_def
  inGrid_def setCell_def recipeSolved_def calculateRating_def cellX_def cellY_def

lemmas reset_defs =
  resetGridToSolved_def relocateTile_def inGrid_def setCell_def cellX_def cellY_def

text \<open>The board \<open>create\<close> builds for the default recipe, before the shuffle.\<close>

lemma createBoard_initial:
  "createBoard initialWorld =
     \<lparr>tiles = [\<lparr>tid = 1, currentRow = 0, currentCol = 0, containerX = 105, containerY = 240\<rparr>,
               \<lparr>tid = 2, currentRow = 0, currentCol = 1, containerX = 235, containerY = 240\<rparr>,
               \<lparr>tid = 3, currentRow = 0, currentCol = 2, containerX = 365, containerY = 240\<rparr>,
               \<lparr>tid = 8, currentRow = 1, currentCol = 0, containerX = 105, containerY = 370\<rparr>],
      gridData = [[1, 2, 3], [8, 0, 0], [0, 0, 0]],
      emptyPos = \<lparr>row = 1, col = 2\<rparr>, moveCount = 0,
      isAnimating = False, isShuffling = False, isWon = False, hasFailed = False,
      GameState = initialGameState\<lparr>currentRecipe := Some leafy_stack\<rparr>,
      GAME_CONFIG = initialConfig\<lparr>GRID_SIZE := 3, OPTIMAL_MOVES := 15, MAX_MOVES := 40,
                                  DIFFICULTY := ''Easy''\<rparr>\<rparr>"
  by (simp add: start_defs catalogue_defs upt_rec)

lemmas example_defs =
  nearlySolved_def createBoard_initial initialGameState_def initialConfig_def leafy_stack_def

section \<open>The win check\<close>

lemma recipeSolved_iff:
  "recipeSolved sq g \<longleftrightarrow> length sq \<le> length (concat g) \<and> take (length sq) (concat g) = sq"
proof -
  have "recipeSolved sq g \<longleftrightarrow>
          (\<forall>i<length sq. i < length (concat g) \<and> concat g ! i = sq ! i)"
    by (auto simp: recipeSolved_def Let_def list_all_iff)
  also have "\<dots> \<longleftrightarrow> length sq \<le> length (concat g) \<and> take (length sq) (concat g) = sq"
  proof (cases "length sq \<le> length (concat g)")
    case True
    then show ?thesis
      by (auto simp: list_eq_iff_nth_eq)
  next
    case False
    then have "length (concat g) < length sq" by simp
    then show ?thesis using False by blast
  qed
  finally show ?thesis .
qed

lemma take_prefix_solved:
  assumes "take n fl = xs" and "length xs = n"
  shows "length xs \<le> length fl \<and> take (length xs) fl = xs"
proof -
  have "length (take n fl) = n" using assms by simp
  then have "n \<le> length fl" by simp
  with assms show ?thesis by simp
qed

text \<open>
  Claim C1. In recipe mode the win check compares the first
  \<open>length targetSequence\<close> cells of the row-major flattening of the grid with the
  target sequence, position by position, and nothing else. For \<open>leafy_stack\<close>
  (sequence 1, 2, 3, 8): a board whose first four flattened cells are 1, 2, 3, 8 is
  reported won, whatever the other cells hold (the flag \<open>isWon\<close> is set and the
  completion hook records a win); a board whose first four cells are 1, 2, 8, 3 is
  left as it is.
\<close>

theorem win_check_prefix:
  "(recipeSolved sq g \<longleftrightarrow> length sq \<le> length (concat g) \<and> take (length sq) (concat g) = sq)
   \<and> (RECIPE_MODE (GAME_CONFIG s) \<and> currentRecipe (GameState s) = Some leafy_stack \<and>
        take 4 (concat (gridData s)) = [1, 2, 3, 8] \<longrightarrow>
        (\<exists>s'. checkWinCondition s = Inr s' \<and> isWon s' \<and> lastResult (GameState s') = Some Win))
   \<and> (RECIPE_MODE (GAME_CONFIG t) \<and> currentRecipe (GameState t) = Some leafy_stack \<and>
        take 4 (concat (gridData t)) = [1, 2, 8, 3] \<longrightarrow> checkWinCondition t = Inr t)"
proof (intro conjI impI)
  show "recipeSolved sq g \<longleftrightarrow> length sq \<le> length (concat g) \<and> take (length sq) (concat g) = sq"
    by (rule recipeSolved_iff)
next
  assume a: "RECIPE_MODE (GAME_CONFIG s) \<and> currentRecipe (GameState s) = Some leafy_stack \<and>
        take 4 (concat (gridData s)) = [1, 2, 3, 8]"
  then have "recipeSolved [1, 2, 3, 8] (gridData s)"
    unfolding recipeSolved_iff
    using take_prefix_solved [of 4 "concat (gridData s)" "[1, 2, 3, 8]"] by simp
  with a show "\<exists>s'. checkWinCondition s = Inr s' \<and> isWon s' \<and> lastResult (GameState s') = Some Win"
    by (simp add: checkWinCondition_def leafy_stack_def onPuzzleSolved_def
        onPuzzleComplete_def Let_def)
next
  assume a: "RECIPE_MODE (GAME_CONFIG t) \<and> currentRecipe (GameState t) = Some leafy_stack \<and>
        take 4 (concat (gridData t)) = [1, 2, 8, 3]"
  have len: "length [1, 2, 3, 8 :: int] = 4" by simp
  have "\<not> recipeSolved [1, 2, 3, 8] (gridData t)"
    unfolding recipeSolved_iff len using a by simp
  with a show "checkWinCondition t = Inr t"
    by (simp add: checkWinCondition_def leafy_stack_def)
qed

theorem win_check_prefix_witness:
  "(\<exists>s'. checkWinCondition
            ((createBoard initialWorld)\<lparr>gridData := [[1, 2, 3], [8, 0, 5], [7, 0, 0]]\<rparr>) = Inr s'
        \<and> isWon s' \<and> lastResult (GameState s') = Some Win)
   \<and> checkWinCondition ((createBoard initialWorld)\<lparr>gridData := [[1, 2, 8], [3, 0, 0], [0, 0, 0]]\<rparr>)
       = Inr ((createBoard initialWorld)\<lparr>gridData := [[1, 2, 8], [3, 0, 0], [0, 0, 0]]\<rparr>)"
  using win_check_prefix
    [where s = "(createBoard initialWorld)\<lparr>gridData := [[1, 2, 3], [8, 0, 5], [7, 0, 0]]\<rparr>"
       and t = "(createBoard initialWorld)\<lparr>gridData := [[1, 2, 8], [3, 0, 0], [0, 0, 0]]\<rparr>"]
  by (simp add: createBoard_initial initialConfig_def)

section \<open>The rating\<close>

text \<open>
  Claim C3. The rating is read off the move counter and the optimal-move
  threshold in force (\<open>GAME_CONFIG.OPTIMAL_MOVES\<close>, which \<open>applyRecipeConfig\<close> sets to
  the recipe's value or to 20), with inclusive comparisons: at most the optimum
  gives three stars, at most one and a half times the optimum two stars, at most
  twice the optimum one star, anything more the skull. With the optimum 20 (the
  recipe \<open>garden_delight\<close>, or any recipe without the field): 20 moves give three
  stars, 30 two stars, 31 and 40 one star, 41 the skull.
\<close>

theorem rating_thresholds:
  "calculateRating s =
     (if moveCount s \<le> OPTIMAL_MOVES (GAME_CONFIG s) then ThreeStars
      else if 2 * moveCount s \<le> 3 * OPTIMAL_MOVES (GAME_CONFIG s) then TwoStars
      else if moveCount s \<le> 2 * OPTIMAL_MOVES (GAME_CONFIG s) then OneStar
      else Skull)
   \<and> OPTIMAL_MOVES (applyRecipeConfig r c) = orDefault (optimalMoves r) 20
   \<and> OPTIMAL_MOVES (applyRecipeConfig garden_delight c) = 20
   \<and> OPTIMAL_MOVES (applyRecipeConfig (r\<lparr>optimalMoves := None\<rparr>) c) = 20
   \<and> calculateRating (s\<lparr>moveCount := 20, GAME_CONFIG := applyRecipeConfig garden_delight c\<rparr>)
       = ThreeStars
   \<and> calculateRating (s\<lparr>moveCount := 30, GAME_CONFIG := applyRecipeConfig garden_delight c\<rparr>)
       = TwoStars
   \<and> calculateRating (s\<lparr>moveCount := 31, GAME_CONFIG := applyRecipeConfig garden_delight c\<rparr>)
       = OneStar
   \<and> calculateRating (s\<lparr>moveCount := 40, GAME_CONFIG := applyRecipeConfig garden_delight c\<rparr>)
       = OneStar
   \<and> calculateRating (s\<lparr>moveCount := 41, GAME_CONFIG := applyRecipeConfig garden_delight c\<rparr>)
       = Skull"
  by (simp add: calculateRating_def Let_def applyRecipeConfig_def orDefault_def
      garden_delight_def)

section \<open>Player moves and the move budget\<close>

lemma onPuzzleSolved_frame:
  assumes "onPuzzleSolved s = Inr s'"
  shows "tiles s' = tiles s \<and> gridData s' = gridData s \<and> emptyPos s' = emptyPos s \<and>
         moveCount s' = moveCount s \<and> hasFailed s' = hasFailed s \<and>
         isAnimating s' = isAnimating s \<and> isShuffling s' = isShuffling s \<and>
         GAME_CONFIG s' = GAME_CONFIG s \<and>
         currentRecipe (GameState s') = currentRecipe (GameState s) \<and>
         puzzlesFailed (GameState s') = puzzlesFailed (GameState s)"
  using assms
  by (auto simp: onPuzzleSolved_def onPuzzleComplete_def Let_def split: option.splits)

lemma checkWinCondition_frame:
  assumes "checkWinCondition s = Inr s'"
  shows "tiles s' = tiles s \<and> gridData s' = gridData s \<and> emptyPos s' = emptyPos s \<and>
         moveCount s' = moveCount s \<and> hasFailed s' = hasFailed s \<and>
         isAnimating s' = isAnimating s \<and> isShuffling s' = isShuffling s \<and>
         GAME_CONFIG s' = GAME_CONFIG s \<and>
         currentRecipe (GameState s') = currentRecipe (GameState s) \<and>
         puzzlesFailed (GameState s') = puzzlesFailed (GameState s)"
proof (cases "checkWinCondition s = Inr s")
  case True
  with assms show ?thesis by simp
next
  case False
  then have "checkWinCondition s = onPuzzleSolved s"
    by (simp add: checkWinCondition_def split: option.splits if_splits)
  with assms show ?thesis using onPuzzleSolved_frame by simp
qed

lemma player_move_fails_at_limit:
  assumes "i < length (tiles s)"
    and "inGrid (gridData s) (currentRow (tiles s ! i)) (currentCol (tiles s ! i))"
    and "inGrid (gridData s) (row (emptyPos s)) (col (emptyPos s))"
    and "MAX_MOVES (GAME_CONFIG s) \<le> moveCount s + 1" and "\<not> isWon s"
  shows "\<exists>s'. moveTile i True s = Inr s' \<and> hasFailed s' \<and> \<not> isWon s' \<and>
            moveCount s' = moveCount s + 1 \<and>
            GameState s' = onPuzzleFail (GameState s) \<and>
            lastResult (GameState s') = Some Fail"
  using assms
  by (simp add: moveTile_def moveTileComplete_def triggerFailState_def onPuzzleFail_def Let_def)

lemma player_move_below_limit:
  assumes "moveTile j True t = Inr t'" and "moveCount t + 1 < MAX_MOVES (GAME_CONFIG t)"
  shows "moveCount t' = moveCount t + 1 \<and> hasFailed t' = hasFailed t \<and>
        puzzlesFailed (GameState t') = puzzlesFailed (GameState t)"
proof -
  from assms obtain m where m: "checkWinCondition m = Inr t'" "moveCount m = moveCount t + 1"
    "hasFailed m = hasFailed t" "GameState m = GameState t"
    by (auto simp: moveTile_def moveTileComplete_def Let_def split: if_splits)
  from checkWinCondition_frame [OF m(1)] m(2-4) show ?thesis
    by simp
qed

text \<open>
  Claim C2. When the slide of a player move has ended the counter is incremented
  and the fail check comes first: if the new count has reached
  \<open>GAME_CONFIG.MAX_MOVES\<close> and the puzzle is not won, the move returns with
  \<open>hasFailed\<close> set and the failure hook run (\<open>lastResult\<close> is the failure), and the
  win check does not run (\<open>isWon\<close> stays unset whatever the board shows). Below the
  limit the move does not fail. A click the guards of \<open>onTileClick\<close> accept is
  such a player move.
\<close>

theorem fail_check_first:
  "(i < length (tiles s) \<and>
    inGrid (gridData s) (currentRow (tiles s ! i)) (currentCol (tiles s ! i)) \<and>
    inGrid (gridData s) (row (emptyPos s)) (col (emptyPos s)) \<and>
    MAX_MOVES (GAME_CONFIG s) \<le> moveCount s + 1 \<and> \<not> isWon s \<longrightarrow>
      (\<exists>s'. moveTile i True s = Inr s' \<and> hasFailed s' \<and> \<not> isWon s' \<and>
            moveCount s' = moveCount s + 1 \<and>
            GameState s' = onPuzzleFail (GameState s) \<and>
            lastResult (GameState s') = Some Fail))
   \<and> (moveTile j True t = Inr t' \<and> moveCount t + 1 < MAX_MOVES (GAME_CONFIG t) \<longrightarrow>
        moveCount t' = moveCount t + 1 \<and> hasFailed t' = hasFailed t \<and>
        puzzlesFailed (GameState t') = puzzlesFailed (GameState t))
   \<and> (\<not> isAnimating u \<and> \<not> isShuffling u \<and> \<not> isWon u \<and> \<not> hasFailed u \<and>
        k < length (tiles u) \<and> canTileMove (tiles u ! k) u \<longrightarrow>
        onTileClick k u = moveTile k True u)"
  using player_move_fails_at_limit [of i s] player_move_below_limit [of j t t']
  by (simp add: onTileClick_def)

lemma nearlySolved_48:
  "\<exists>w. moveTile 2 True (nearlySolved 48) = Inr w \<and> isWon w"
  by (simp add: example_defs move_defs Let_def upt_rec)

text \<open>
  With a budget of 50: the 50th move fails although it completes the recipe, the
  49th does not fail.
\<close>

theorem fail_check_first_witness:
  "MAX_MOVES (GAME_CONFIG (nearlySolved 49)) = 50
   \<and> (\<exists>s'. onTileClick 2 (nearlySolved 49) = Inr s' \<and> hasFailed s' \<and> \<not> isWon s' \<and>
            moveCount s' = 50 \<and> lastResult (GameState s') = Some Fail \<and>
            recipeSolved (rsequence leafy_stack) (gridData s'))
   \<and> moveCount (projr (moveTile 2 True (nearlySolved 48))) = 49
   \<and> \<not> hasFailed (projr (moveTile 2 True (nearlySolved 48)))
   \<and> puzzlesFailed (GameState (projr (moveTile 2 True (nearlySolved 48)))) = 0"
proof -
  from nearlySolved_48 have r48:
    "moveTile 2 True (nearlySolved 48) = Inr (projr (moveTile 2 True (nearlySolved 48)))"
    by auto
  have solved: "\<And>s'. moveTile 2 True (nearlySolved 49) = Inr s' \<Longrightarrow>
              recipeSolved (rsequence leafy_stack) (gridData s')"
    by (auto simp add: example_defs move_defs Let_def upt_rec)
  from r48 solved
    fail_check_first [where i = 2 and s = "nearlySolved 49" and j = 2 and t = "nearlySolved 48"
      and t' = "projr (moveTile 2 True (nearlySolved 48))" and k = 2 and u = "nearlySolved 49"]
  show ?thesis
    by (auto simp add: example_defs canTileMove_def inGrid_def)
qed

section \<open>Moves of tiles that are not next to the empty cell\<close>

text \<open>
  Claim C4 as stated does not hold: \<open>moveTile\<close> applies the swap to any tile. On
  the start board of the default recipe the bread-top tile at row 0, column 0 is
  not next to the empty cell at row 1, column 2, and \<open>moveTile\<close> moves it there
  without any failure.
\<close>

theorem moveTile_unchecked_counterexample:
  "\<not> canTileMove (tiles (createBoard initialWorld) ! 0) (createBoard initialWorld)
   \<and> map_sum id gridData (moveTile 0 False (createBoard initialWorld))
       = Inr [[0, 2, 3], [8, 0, 1], [0, 0, 0]]
   \<and> map_sum id emptyPos (moveTile 0 False (createBoard initialWorld))
       = Inr \<lparr>row = 0, col = 0\<rparr>"
  by (simp add: createBoard_initial move_defs Let_def)

lemma movableTiles_legal:
  "j \<in> set (movableTiles t) \<Longrightarrow> j < length (tiles t) \<and> canTileMove (tiles t ! j) t"
  by (simp add: movableTiles_def)

lemma shuffleCandidates_subset:
  "set (shuffleCandidates l t) \<subseteq> set (movableTiles t)"
  by (auto simp: shuffleCandidates_def split: option.splits)

text \<open>
  Claim C4, amended. The legality rule is enforced by the callers of \<open>moveTile\<close>:
  a click on a tile that is not exactly one orthogonal step from the empty cell
  leaves the whole state unchanged and raises nothing, and every tile the shuffle
  can choose passes \<open>canTileMove\<close>.
\<close>

theorem illegal_click_ignored:
  "(i < length (tiles s) \<and> \<not> canTileMove (tiles s ! i) s \<longrightarrow> onTileClick i s = Inr s)
   \<and> (j \<in> set (shuffleCandidates l t) \<longrightarrow> j < length (tiles t) \<and> canTileMove (tiles t ! j) t)"
  using shuffleCandidates_subset [of l t] movableTiles_legal [of j t]
  by (auto simp: onTileClick_def)

theorem illegal_click_ignored_witness:
  "onTileClick 0 (createBoard initialWorld) = Inr (createBoard initialWorld)
   \<and> canTileMove (tiles (createBoard initialWorld) ! 2) (createBoard initialWorld)"
proof -
  have c: "shuffleCandidates None (createBoard initialWorld) = [2]"
    by (simp add: shuffleCandidates_def movableTiles_def createBoard_initial canTileMove_def upt_rec)
  have n: "\<not> canTileMove (tiles (createBoard initialWorld) ! 0) (createBoard initialWorld)"
    by (simp add: createBoard_initial canTileMove_def)
  have l: "0 < length (tiles (createBoard initialWorld))"
    by (simp add: createBoard_initial)
  from illegal_click_ignored [where i = 0 and s = "createBoard initialWorld" and j = 2
      and l = None and t = "createBoard initialWorld"] c n l
  show ?thesis by simp
qed

section \<open>The empty cell after initialisation\<close>

text \<open>
  Claim C5 at the default recipe \<open>leafy_stack\<close> (sequence 1, 2, 3, 8 on a 3 by 3
  grid). The solved layout has zeros in rows 1 and 2. The scan starts at the last
  cell, but its \<open>break\<close> ends the column loop only, so the row loop goes on and the
  last row holding a zero that it visits wins: after \<open>createGrid\<close>, and again after
  \<open>resetGridToSolved\<close>, the empty position is row 1, column 2, not row 2, column 2.
\<close>

theorem empty_cell_of_leafy_stack:
  "gridData (createBoard initialWorld) = [[1, 2, 3], [8, 0, 0], [0, 0, 0]]
   \<and> emptyPos (createBoard initialWorld) = \<lparr>row = 1, col = 2\<rparr>
   \<and> map_sum id emptyPos (resetGridToSolved (createBoard initialWorld)) = Inr \<lparr>row = 1, col = 2\<rparr>
   \<and> map_sum id gridData (resetGridToSolved (createBoard initialWorld))
       = Inr [[1, 2, 3], [8, 0, 0], [0, 0, 0]]"
  by (simp add: createBoard_initial reset_defs initialConfig_def initialGameState_def leafy_stack_def upt_rec Let_def)

section \<open>The pet's health across completion and failure\<close>

lemma applyBuff_missing_key: "getStat k p = None \<Longrightarrow> applyBuff (k, d) p = p"
  by (simp add: applyBuff_def)

lemma applyBuff_health: "applyBuff (''health'', d) p = p"
  by (simp add: applyBuff_def getStat_def)

lemma applyBuff_hp: "hp (applyBuff (''hp'', d) p) = min (hp p + d) (maxHp p)"
  by (simp add: applyBuff_def getStat_def setStat_def Let_def)

lemma applyBuff_other:
  assumes "k \<noteq> ''hp''" and "k \<noteq> ''maxHp''"
  shows "hp (applyBuff (k, d) p) = hp p \<and> maxHp (applyBuff (k, d) p) = maxHp p"
  using assms by (simp add: applyBuff_def getStat_def setStat_def Let_def)

lemma applyBuff_healthy:
  assumes "healthy p" and "(fst kv = ''hp'' \<or> fst kv = ''maxHp'') \<longrightarrow> 0 \<le> snd kv"
  shows "healthy (applyBuff kv p)"
proof -
  consider "fst kv = ''hp''" | "fst kv = ''maxHp''" | "fst kv \<noteq> ''hp'' \<and> fst kv \<noteq> ''maxHp''"
    by blast
  then show ?thesis
  proof cases
    case 1
    with assms show ?thesis
      by (simp add: healthy_def applyBuff_def getStat_def setStat_def Let_def)
  next
    case 2
    with assms show ?thesis
      by (simp add: healthy_def applyBuff_def getStat_def setStat_def Let_def)
  next
    case 3
    with applyBuff_other [of "fst kv" "snd kv" p] assms(1) show ?thesis
      by (simp add: healthy_def)
  qed
qed

lemma fold_applyBuff_healthy:
  assumes "healthy p" and "\<forall>kv \<in> set b. (fst kv = ''hp'' \<or> fst kv = ''maxHp'') \<longrightarrow> 0 \<le> snd kv"
  shows "healthy (fold applyBuff b p)"
  using assms
proof (induction b arbitrary: p)
  case Nil
  then show ?case by simp
next
  case (Cons kv b)
  from Cons.prems have "healthy (applyBuff kv p)"
    by (intro applyBuff_healthy) simp_all
  with Cons show ?case by simp
qed

lemma onPuzzleComplete_healthy:
  assumes "healthy (pet g)"
    and "\<forall>b. buff r = Some b \<longrightarrow> (\<forall>kv \<in> set b. (fst kv = ''hp'' \<or> fst kv = ''maxHp'') \<longrightarrow> 0 \<le> snd kv)"
  shows "healthy (pet (onPuzzleComplete r moves rating g))"
  using assms fold_applyBuff_healthy [of "pet g"]
  by (auto simp: onPuzzleComplete_def Let_def split: option.splits)

lemma onPuzzleFail_healthy:
  assumes "healthy (pet g)"
  shows "healthy (pet (onPuzzleFail g))"
  using assms by (simp add: onPuzzleFail_def healthy_def)

lemma catalogue_buffs:
  assumes "r \<in> set RECIPES" and "buff r = Some b" and "kv \<in> set b"
  shows "0 \<le> snd kv"
  using assms by (auto simp: catalogue_defs)

lemma reachable_healthy:
  assumes "g \<in> reachableGameStates"
  shows "healthy (pet g)"
  using assms
proof (induction rule: reachableGameStates.induct)
  case start
  show ?case by (simp add: initialGameState_def healthy_def)
next
  case (select g r)
  then show ?case by simp
next
  case (complete g r moves rating)
  then show ?case
    using catalogue_buffs [of r] by (intro onPuzzleComplete_healthy) auto
next
  case (fail g)
  then show ?case by (simp add: onPuzzleFail_healthy)
qed

text \<open>
  Claim C10. In every value \<open>GameState\<close> takes, the pet's \<open>hp\<close> lies between 0 and
  \<open>maxHp\<close>. The failure hook subtracts 10 and clamps at 0. The completion hook, for a
  buff key \<open>hp\<close>, adds the delta and caps the result at \<open>maxHp\<close>; a buff key that is
  not a key of \<open>petStats\<close>, such as \<open>health\<close>, is skipped without any effect.
\<close>

theorem pet_hp_within_bounds:
  "(g \<in> reachableGameStates \<longrightarrow> 0 \<le> hp (pet g) \<and> hp (pet g) \<le> maxHp (pet g))
   \<and> hp (pet (onPuzzleFail g')) = max 0 (hp (pet g') - 10)
   \<and> hp (applyBuff (''hp'', d) p) = min (hp p + d) (maxHp p)
   \<and> applyBuff (''health'', d) p = p
   \<and> (getStat k p = None \<longrightarrow> applyBuff (k, d) p = p)"
  using reachable_healthy [of g] applyBuff_hp [of d p] applyBuff_health [of d p]
    applyBuff_missing_key [of k p d]
  by (simp add: healthy_def onPuzzleFail_def)

theorem pet_hp_within_bounds_witness:
  "onPuzzleFail (onPuzzleComplete classic_stack 25 ThreeStars initialGameState)
     \<in> reachableGameStates
   \<and> hp (pet (onPuzzleFail (onPuzzleComplete classic_stack 25 ThreeStars initialGameState))) = 90
   \<and> maxHp (pet (onPuzzleFail (onPuzzleComplete classic_stack 25 ThreeStars initialGameState))) = 100
   \<and> getStat ''health'' (pet initialGameState) = None
   \<and> applyBuff (''health'', 20) (pet initialGameState) = pet initialGameState"
proof -
  have m: "onPuzzleFail (onPuzzleComplete classic_stack 25 ThreeStars initialGameState)
             \<in> reachableGameStates"
    by (intro reachableGameStates.intros) (simp add: RECIPES_def)
  have n: "getStat ''health'' (pet initialGameState) = None"
    by (simp add: getStat_def)
  have v: "hp (pet (onPuzzleFail (onPuzzleComplete classic_stack 25 ThreeStars initialGameState))) = 90
     \<and> maxHp (pet (onPuzzleFail (onPuzzleComplete classic_stack 25 ThreeStars initialGameState))) = 100"
    by (simp add: onPuzzleFail_def onPuzzleComplete_def classic_stack_def initialGameState_def
        applyBuff_def getStat_def setStat_def Let_def)
  from m n v
    pet_hp_within_bounds [where g = "onPuzzleFail (onPuzzleComplete classic_stack 25 ThreeStars initialGameState)"
      and k = "''health''" and p = "pet initialGameState" and d = 20]
  show ?thesis by simp
qed

section \<open>The hybrid pass\<close>

lemma slideTo_logical: "map logicalTile (slideTo i p ts) = map logicalTile ts"
proof (cases "i < length ts")
  case True
  then have "logicalTile ((ts ! i)\<lparr>containerX := fst p, containerY := snd p\<rparr>)
               = map logicalTile ts ! i"
    by (simp add: logicalTile_def)
  then show ?thesis
    by (simp add: slideTo_def map_update del: nth_map)
next
  case False
  then show ?thesis by (simp add: slideTo_def list_update_beyond)
qed

lemma slideHome_logical: "map logicalTile (slideHome i ts) = map logicalTile ts"
  by (simp add: slideHome_def slideTo_logical)

lemma fold_slideTo_logical:
  "map logicalTile (fold (\<lambda>(i, p). slideTo i p) ips ts) = map logicalTile ts"
  by (induction ips arbitrary: ts) (auto simp: slideTo_logical)

lemma fold_slideHome_logical:
  "map logicalTile (fold slideHome is ts) = map logicalTile ts"
  by (induction "is" arbitrary: ts) (auto simp: slideHome_logical)

lemma makeHybridMove_frame:
  "\<exists>ts b. makeHybridMove hybridMoves rng k currentHybridMove s = s\<lparr>tiles := ts, isShuffling := b\<rparr>
          \<and> map logicalTile ts = map logicalTile (tiles s)"
proof (induction hybridMoves rng k currentHybridMove s rule: makeHybridMove.induct)
  case (1 hybridMoves rng k currentHybridMove s)
  show ?case
  proof (cases "currentHybridMove \<ge> hybridMoves")
    case True
    then have "makeHybridMove hybridMoves rng k currentHybridMove s
                 = s\<lparr>tiles := tiles s, isShuffling := False\<rparr>"
      by (subst makeHybridMove.simps) simp
    then show ?thesis by blast
  next
    case False
    obtain picked k1 where pk:
      "pickTiles (if drawBelow (rng k) 0.7 then 2 else 3) rng (Suc k) [0..<length (tiles s)] []
         = (picked, k1)"
      by (cases "pickTiles (if drawBelow (rng k) 0.7 then 2 else 3) rng (Suc k) [0..<length (tiles s)] []")
    show ?thesis
    proof (cases "picked = []")
      case True
      with False pk have "makeHybridMove hybridMoves rng k currentHybridMove s
                 = s\<lparr>tiles := tiles s, isShuffling := isShuffling s\<rparr>"
        by (subst makeHybridMove.simps) (simp add: Let_def)
      then show ?thesis by blast
    next
      case ne: False
      let ?ts = "fold slideHome picked
                   (fold (\<lambda>(i, p). slideTo i p)
                      (zip picked (permutePositions
                          (map (\<lambda>i. (containerX (tiles s ! i), containerY (tiles s ! i))) picked)))
                      (tiles s))"
      have step: "makeHybridMove hybridMoves rng k currentHybridMove s
                    = makeHybridMove hybridMoves rng (Suc k1) (Suc currentHybridMove)
                        (s\<lparr>tiles := ?ts\<rparr>)"
        using False pk ne by (subst makeHybridMove.simps) (simp add: Let_def)
      have ts: "map logicalTile ?ts = map logicalTile (tiles s)"
        by (simp add: fold_slideHome_logical fold_slideTo_logical)
      from "1.IH" [OF False refl refl pk [symmetric] refl refl refl ne]
      obtain ts' b where r:
        "makeHybridMove hybridMoves rng (Suc k1) (Suc currentHybridMove) (s\<lparr>tiles := ?ts\<rparr>)
           = s\<lparr>tiles := ?ts\<rparr>\<lparr>tiles := ts', isShuffling := b\<rparr>"
        "map logicalTile ts' = map logicalTile (tiles (s\<lparr>tiles := ?ts\<rparr>))"
        by blast
      from r(1) step have "makeHybridMove hybridMoves rng k currentHybridMove s
                             = s\<lparr>tiles := ts', isShuffling := b\<rparr>"
        by simp
      moreover from r(2) ts have "map logicalTile ts' = map logicalTile (tiles s)"
        by simp
      ultimately show ?thesis by blast
    qed
  qed
qed

text \<open>
  Claim C9. The hybrid pass leaves the logical board as it found it: the grid,
  the empty position, and the id, row and column of every tile. The world after the
  pass differs from the world before it in the \<open>tiles\<close> array and the flag
  \<open>isShuffling\<close> at most, and the tiles differ in their container coordinates only.
\<close>

theorem hybrid_shuffle_is_cosmetic:
  "logicalBoard (performHybridShuffle rng k s) = logicalBoard s
   \<and> (\<exists>ts b. performHybridShuffle rng k s = s\<lparr>tiles := ts, isShuffling := b\<rparr>
             \<and> map logicalTile ts = map logicalTile (tiles s))"
proof -
  from makeHybridMove_frame [of "HYBRID_SHUFFLE_COUNT (GAME_CONFIG s)" rng k 0 s]
  obtain ts b where r:
    "performHybridShuffle rng k s = s\<lparr>tiles := ts, isShuffling := b\<rparr>"
    "map logicalTile ts = map logicalTile (tiles s)"
    by (auto simp: performHybridShuffle_def)
  then have "logicalBoard (performHybridShuffle rng k s) = logicalBoard s"
    by (simp add: logicalBoard_def)
  with r show ?thesis by blast
qed

section \<open>The shuffle walk\<close>

lemma randomIndex_less: "0 < n \<Longrightarrow> randomIndex r n < n"
proof (transfer)
  fix n :: nat and r :: real
  assume n: "0 < n" and r: "0 \<le> r \<and> r < 1"
  then have "r * real n < real n" by simp
  then have "\<lfloor>r * real n\<rfloor> < int n" by (simp add: floor_less_iff)
  moreover have "0 \<le> \<lfloor>r * real n\<rfloor>" using r by simp
  ultimately show "nat \<lfloor>r * real n\<rfloor> < n" by linarith
qed

lemma randomIndex_low [simp]: "randomIndex lowDraw n = 0"
  by transfer simp

lemma drawBelow_low [simp]: "drawBelow lowDraw p \<longleftrightarrow> 0 < p"
  by transfer simp

lemma candidate_differs:
  assumes "b \<in> set (shuffleCandidates (Some a) s)" and "1 < length (movableTiles s)"
  shows "tid (tiles s ! b) \<noteq> tid (tiles s ! a) \<and> a \<noteq> b"
  using assms by (auto simp: shuffleCandidates_def)

lemma makeShuffleMove_noBacktrackFrom:
  "makeShuffleMove moves rng k currentMove lastMovedTile s = Inr (steps, s')
     \<Longrightarrow> noBacktrackFrom lastMovedTile steps"
proof (induction moves rng k currentMove lastMovedTile s arbitrary: steps s'
       rule: makeShuffleMove.induct)
  case (1 moves rng k currentMove lastMovedTile s)
  show ?case
  proof (cases "currentMove \<ge> moves")
    case True
    with "1.prems" show ?thesis by (subst (asm) makeShuffleMove.simps) auto
  next
    case False
    let ?movable = "shuffleCandidates lastMovedTile s"
    show ?thesis
    proof (cases "length ?movable > 0")
      case True
      let ?b = "?movable ! randomIndex (rng k) (length ?movable)"
      have b: "?b \<in> set ?movable"
        using True randomIndex_less [of "length ?movable" "rng k"] by simp
      from "1.prems" False True obtain s1 rest where
        mv: "moveTile ?b False s = Inr s1" and
        rec: "makeShuffleMove moves rng (k + 2) (Suc currentMove) (Some ?b) s1 = Inr (rest, s')" and
        st: "steps = (length (movableTiles s), Some ?b) # rest"
        by (subst (asm) makeShuffleMove.simps) (auto simp: Let_def split: sum.splits)
      have "noBacktrackFrom (Some ?b) rest"
        using "1.IH"(1) [OF False refl True refl mv rec] .
      moreover have "case lastMovedTile of Some a \<Rightarrow> length (movableTiles s) \<le> 1 \<or> a \<noteq> ?b | None \<Rightarrow> True"
      proof (cases lastMovedTile)
        case None
        then show ?thesis by simp
      next
        case (Some a)
        with b candidate_differs [of ?b a s] show ?thesis
          by (cases "1 < length (movableTiles s)") auto
      qed
      ultimately show ?thesis using st by simp
    next
      case F2: False
      from "1.prems" False F2 obtain rest where
        rec: "makeShuffleMove moves rng k (Suc currentMove) lastMovedTile s = Inr (rest, s')" and
        st: "steps = (length (movableTiles s), None) # rest"
        by (subst (asm) makeShuffleMove.simps) (auto simp: Let_def split: sum.splits)
      have "noBacktrackFrom lastMovedTile rest"
        using "1.IH"(2) [OF False refl F2 rec] .
      then show ?thesis using st by simp
    qed
  qed
qed

lemma noBacktrackFrom_consecutive:
  assumes "noBacktrackFrom lastMoved steps" and "Suc j < length steps"
    and "snd (steps ! j) = Some a" and "snd (steps ! Suc j) = Some b"
    and "1 < fst (steps ! Suc j)"
  shows "a \<noteq> b"
  using assms
proof (induction lastMoved steps arbitrary: j rule: noBacktrackFrom.induct)
  case (1 lastMoved)
  then show ?case by simp
next
  case (2 lastMoved n steps)
  then show ?case by (cases j) auto
next
  case (3 lastMoved n c steps)
  show ?case
  proof (cases j)
    case 0
    with "3.prems" obtain n2 rest where st: "steps = (n2, Some b) # rest"
      by (cases steps) (auto simp: prod_eq_iff)
    with "3.prems" 0 show ?thesis by auto
  next
    case (Suc j')
    with "3.prems" "3.IH" [of j'] show ?thesis by auto
  qed
qed

section \<open>Square grids and their flattening\<close>

lemma concat_regular_length:
  "\<forall>rw \<in> set g. length rw = n \<Longrightarrow> length (concat g) = length g * n"
  by (induction g) auto

lemma concat_regular_nth:
  "\<forall>rw \<in> set g. length rw = n \<Longrightarrow> r < length g \<Longrightarrow> c < n
   \<Longrightarrow> concat g ! (r * n + c) = g ! r ! c"
proof (induction g arbitrary: r)
  case Nil
  then show ?case by simp
next
  case (Cons rw g)
  show ?case
  proof (cases r)
    case 0
    with Cons.prems show ?thesis by (simp add: nth_append)
  next
    case (Suc r')
    with Cons.prems have "concat g ! (r' * n + c) = g ! r' ! c"
      by (intro Cons.IH) auto
    moreover have "length rw = n" using Cons.prems by simp
    ultimately show ?thesis using Suc by (simp add: nth_append)
  qed
qed

lemma concat_setCell:
  "\<forall>rw \<in> set g. length rw = n \<Longrightarrow> r < length g \<Longrightarrow> c < n
   \<Longrightarrow> concat (setCell r c v g) = (concat g)[r * n + c := v]"
proof (induction g arbitrary: r)
  case Nil
  then show ?case by simp
next
  case (Cons rw g)
  show ?case
  proof (cases r)
    case 0
    with Cons.prems show ?thesis by (simp add: setCell_def list_update_append)
  next
    case (Suc r')
    with Cons.prems have "concat (setCell r' c v g) = (concat g)[r' * n + c := v]"
      by (intro Cons.IH) auto
    moreover have "length rw = n" using Cons.prems by simp
    ultimately show ?thesis using Suc by (simp add: setCell_def list_update_append)
  qed
qed

lemma regularGrid_setCell:
  assumes "regularGrid n g"
  shows "regularGrid n (setCell r c v g)"
proof (cases "r < length g")
  case True
  then have "length (g ! r) = n" using assms by (simp add: regularGrid_def)
  with assms True show ?thesis
    by (auto simp: regularGrid_def setCell_def dest!: set_update_subset_insert [THEN subsetD])
next
  case False
  with assms show ?thesis by (simp add: setCell_def list_update_beyond)
qed

lemma setCell_nth:
  "regularGrid n g \<Longrightarrow> r < n \<Longrightarrow> c < n \<Longrightarrow> r' < n \<Longrightarrow> c' < n
   \<Longrightarrow> setCell r c v g ! r' ! c' = (if r' = r \<and> c' = c then v else g ! r' ! c')"
  by (auto simp: regularGrid_def setCell_def nth_list_update)

lemma regularGrid_inGrid: "regularGrid n g \<Longrightarrow> r < n \<Longrightarrow> c < n \<Longrightarrow> inGrid g r c"
  by (simp add: regularGrid_def inGrid_def)

section \<open>A legal move on a board that satisfies the invariant\<close>

lemma nonzeroCells_move:
  assumes len: "p < length fl" "q < length fl" and pq: "p \<noteq> q"
    and vp: "fl ! p = v" and v: "v \<noteq> 0" and vq: "fl ! q = 0"
  shows "mset (filter (\<lambda>x. x \<noteq> 0) (fl[p := 0, q := v])) = mset (filter (\<lambda>x. x \<noteq> (0::int)) fl)"
proof -
  have "mset (fl[p := 0, q := v]) = mset fl"
  proof -
    have "fl[p := 0, q := v] = fl[p := fl ! q, q := fl ! p]"
      using vp vq by simp
    then show ?thesis using len by (simp add: mset_swap)
  qed
  then have "filter_mset (\<lambda>x. x \<noteq> 0) (mset (fl[p := 0, q := v]))
             = filter_mset (\<lambda>x. x \<noteq> 0) (mset fl)"
    by simp
  then show ?thesis by (simp only: mset_filter)
qed

lemma tiles_logical:
  assumes "map logicalTile ts' = map logicalTile ts"
  shows "list_all (tileOnCell n g) ts' = list_all (tileOnCell n g) ts"
    and "map (\<lambda>t. (currentRow t, currentCol t)) ts' = map (\<lambda>t. (currentRow t, currentCol t)) ts"
    and "map tid ts' = map tid ts"
proof -
  have a: "tileOnCell n g = (\<lambda>(v, r, c). r < n \<and> c < n \<and> g ! r ! c = v \<and> v \<noteq> 0) \<circ> logicalTile"
    by (auto simp: tileOnCell_def logicalTile_def fun_eq_iff)
  have b: "(\<lambda>t. (currentRow t, currentCol t)) = snd \<circ> logicalTile"
    by (auto simp: logicalTile_def fun_eq_iff)
  have c: "tid = fst \<circ> logicalTile"
    by (auto simp: logicalTile_def fun_eq_iff)
  show "list_all (tileOnCell n g) ts' = list_all (tileOnCell n g) ts"
    unfolding a list.pred_map [symmetric] using assms by simp
  show "map (\<lambda>t. (currentRow t, currentCol t)) ts' = map (\<lambda>t. (currentRow t, currentCol t)) ts"
    unfolding b map_map [symmetric] using assms by simp
  show "map tid ts' = map tid ts"
    unfolding c map_map [symmetric] using assms by simp
qed

lemma boardInv_frame:
  assumes "GAME_CONFIG s' = GAME_CONFIG s"
    and "currentRecipe (GameState s') = currentRecipe (GameState s)"
    and "gridData s' = gridData s" and "emptyPos s' = emptyPos s"
    and "map logicalTile (tiles s') = map logicalTile (tiles s)"
  shows "boardInv r s' = boardInv r s"
  using assms tiles_logical [OF assms(5)] by (simp add: boardInv_def)

lemma flat_index_inj:
  assumes "c < n" and "c' < n" and "r * n + c = r' * n + c'"
  shows "r = r' \<and> c = (c'::nat)"
proof -
  have "(r * n + c) div n = r" and "(r' * n + c') div n = r'"
    using assms(1,2) by simp_all
  moreover have "(r * n + c) div n = (r' * n + c') div n"
    using assms(3) by (rule arg_cong)
  ultimately have "r = r'" by simp
  with assms show ?thesis by simp
qed

lemma flat_index_less:
  assumes "r < n" and "c < (n::nat)"
  shows "r * n + c < n * n"
proof -
  have "r * n + c < r * n + n" using assms by simp
  also have "\<dots> = Suc r * n" by simp
  also have "\<dots> \<le> n * n" using assms by (intro mult_le_mono1) simp
  finally show ?thesis .
qed

lemma swap_keeps_boardInv:
  assumes inv: "boardInv r s" and i: "i < length (tiles s)"
  shows "boardInv r
           (s\<lparr>isAnimating := True,
              gridData := setCell (row (emptyPos s)) (col (emptyPos s)) (tid (tiles s ! i))
                            (setCell (currentRow (tiles s ! i)) (currentCol (tiles s ! i)) 0
                               (gridData s)),
              tiles := (tiles s)[i := (tiles s ! i)\<lparr>currentRow := row (emptyPos s),
                                                   currentCol := col (emptyPos s)\<rparr>],
              emptyPos := \<lparr>row = currentRow (tiles s ! i), col = currentCol (tiles s ! i)\<rparr>\<rparr>)"
proof -
  define n where "n = GRID_SIZE (GAME_CONFIG s)"
  define g where "g = gridData s"
  define t where "t = tiles s ! i"
  define er where "er = row (emptyPos s)"
  define ec where "ec = col (emptyPos s)"
  define tr where "tr = currentRow t"
  define tc where "tc = currentCol t"
  define g1 where "g1 = setCell tr tc 0 g"
  define g2 where "g2 = setCell er ec (tid t) g1"
  define ts' where "ts' = (tiles s)[i := t\<lparr>currentRow := er, currentCol := ec\<rparr>]"
  note defs = n_def g_def t_def er_def ec_def tr_def tc_def
  from inv have reg: "regularGrid n g"
    and e: "er < n" "ec < n" "g ! er ! ec = 0"
    and all: "list_all (tileOnCell n g) (tiles s)"
    and dist: "distinct (map (\<lambda>t. (currentRow t, currentCol t)) (tiles s))"
    and ids: "map tid (tiles s) = rsequence r"
    and nz: "nonzeroCells g = mset (rsequence r)"
    by (simp_all add: boardInv_def defs)
  from all i have t: "tr < n" "tc < n" "g ! tr ! tc = tid t" "tid t \<noteq> 0"
    by (simp_all add: list_all_length tileOnCell_def defs)
  have ne: "\<not> (tr = er \<and> tc = ec)" using t e by auto
  have reg1: "regularGrid n g1" unfolding g1_def using reg by (rule regularGrid_setCell)
  have reg2: "regularGrid n g2" unfolding g2_def using reg1 by (rule regularGrid_setCell)
  have cell2: "g2 ! r' ! c' = (if r' = er \<and> c' = ec then tid t
                               else if r' = tr \<and> c' = tc then 0 else g ! r' ! c')"
    if "r' < n" "c' < n" for r' c'
    unfolding g2_def g1_def
    using that e t reg reg1 [unfolded g1_def]
    by (simp add: setCell_nth [where n = n])
  have empty': "g2 ! tr ! tc = 0"
    using cell2 [of tr tc] t ne by auto
  have all': "list_all (tileOnCell n g2) ts'"
    unfolding list_all_length
  proof (intro allI impI)
    fix j assume j: "j < length ts'"
    then have j': "j < length (tiles s)" by (simp add: ts'_def)
    show "tileOnCell n g2 (ts' ! j)"
    proof (cases "j = i")
      case True
      then have "ts' ! j = t\<lparr>currentRow := er, currentCol := ec\<rparr>"
        using i by (simp add: ts'_def)
      then show ?thesis using e t cell2 [of er ec] by (simp add: tileOnCell_def)
    next
      case False
      then have same: "ts' ! j = tiles s ! j" by (simp add: ts'_def)
      from all j' have tj: "tileOnCell n g (tiles s ! j)" by (simp add: list_all_length)
      have "(currentRow (tiles s ! j), currentCol (tiles s ! j)) \<noteq> (tr, tc)"
        using dist False i j' by (auto simp: distinct_conv_nth defs)
      moreover have "(currentRow (tiles s ! j), currentCol (tiles s ! j)) \<noteq> (er, ec)"
        using tj e by (auto simp: tileOnCell_def)
      ultimately show ?thesis
        using tj cell2 [of "currentRow (tiles s ! j)" "currentCol (tiles s ! j)"] same
        by (auto simp: tileOnCell_def)
    qed
  qed
  have dist': "distinct (map (\<lambda>t. (currentRow t, currentCol t)) ts')"
  proof -
    have "map (\<lambda>t. (currentRow t, currentCol t)) ts'
            = (map (\<lambda>t. (currentRow t, currentCol t)) (tiles s))[i := (er, ec)]"
      by (simp add: ts'_def map_update)
    moreover have "(er, ec) \<notin> set (map (\<lambda>t. (currentRow t, currentCol t)) (tiles s))"
    proof
      assume "(er, ec) \<in> set (map (\<lambda>t. (currentRow t, currentCol t)) (tiles s))"
      then obtain u where u: "u \<in> set (tiles s)" "currentRow u = er" "currentCol u = ec"
        by auto
      with all have "tileOnCell n g u" by (simp add: list_all_iff)
      with u e show False by (simp add: tileOnCell_def)
    qed
    ultimately show ?thesis using dist by (simp add: distinct_list_update)
  qed
  have ids': "map tid ts' = rsequence r"
  proof -
    have "map tid ts' = (map tid (tiles s))[i := tid t]"
      by (simp add: ts'_def map_update)
    also have "\<dots> = map tid (tiles s)"
      using i by (simp add: t_def list_update_same_conv)
    finally show ?thesis using ids by simp
  qed
  have nz': "nonzeroCells g2 = mset (rsequence r)"
  proof -
    from reg have rows: "\<forall>rw \<in> set g. length rw = n" and len: "length g = n"
      by (simp_all add: regularGrid_def)
    from reg1 have rows1: "\<forall>rw \<in> set g1. length rw = n" and len1: "length g1 = n"
      by (simp_all add: regularGrid_def)
    have fl: "concat g2 = (concat g)[tr * n + tc := 0, er * n + ec := tid t]"
      unfolding g2_def g1_def
      using concat_setCell [OF rows, of tr tc 0] concat_setCell [OF rows1, of er ec "tid t"]
        t e len len1
      by (simp add: g1_def)
    have lens: "tr * n + tc < length (concat g)" "er * n + ec < length (concat g)"
      using concat_regular_length [OF rows] len t e flat_index_less by simp_all
    have "tr * n + tc \<noteq> er * n + ec"
      using flat_index_inj [of tc n ec tr er] t e ne by auto
    moreover have "concat g ! (tr * n + tc) = tid t" "concat g ! (er * n + ec) = 0"
      using concat_regular_nth [OF rows] len t e by simp_all
    ultimately show ?thesis
      using nonzeroCells_move [of "tr * n + tc" "concat g" "er * n + ec" "tid t"] lens t nz
      by (simp add: nonzeroCells_def fl)
  qed
  from inv have cfg: "RECIPE_MODE (GAME_CONFIG s)" "currentRecipe (GameState s) = Some r"
    "orDefault (gridSize r) 3 = GRID_SIZE (GAME_CONFIG s)"
    by (simp_all add: boardInv_def)
  show ?thesis
    using cfg reg2 t e empty' all' dist' ids' nz'
    by (simp add: boardInv_def defs [symmetric] g1_def [symmetric] g2_def [symmetric]
        ts'_def [symmetric])
qed

lemma checkWinCondition_succeeds:
  assumes "currentRecipe (GameState s) = Some r"
  shows "\<exists>s'. checkWinCondition s = Inr s'"
  using assms by (simp add: checkWinCondition_def onPuzzleSolved_def Let_def)

lemma moveTileComplete_keeps_boardInv:
  assumes "boardInv r s"
  shows "\<exists>s'. moveTileComplete i x y isPlayerMove s = Inr s' \<and> boardInv r s'"
proof -
  let ?s1 = "s\<lparr>isAnimating := False,
                tiles := (tiles s)[i := (tiles s ! i)\<lparr>containerX := x, containerY := y\<rparr>]\<rparr>"
  have lt: "map logicalTile (tiles ?s1) = map logicalTile (tiles s)"
    using slideTo_logical [of i "(x, y)" "tiles s"] by (simp add: slideTo_def)
  have inv1: "boardInv r ?s1"
    using assms boardInv_frame [of ?s1 s r] lt by simp
  show ?thesis
  proof (cases isPlayerMove)
    case False
    with inv1 show ?thesis by (simp add: moveTileComplete_def Let_def)
  next
    case True
    let ?s2 = "?s1\<lparr>moveCount := moveCount ?s1 + 1\<rparr>"
    have inv2: "boardInv r ?s2"
      using inv1 boardInv_frame [of ?s2 ?s1 r] by simp
    show ?thesis
    proof (cases "moveCount ?s2 \<ge> MAX_MOVES (GAME_CONFIG ?s2) \<and> \<not> isWon ?s2")
      case fail: True
      have "boardInv r (triggerFailState ?s2)"
        using inv2 boardInv_frame [of "triggerFailState ?s2" ?s2 r]
        by (simp add: triggerFailState_def onPuzzleFail_def)
      moreover have "moveTileComplete i x y isPlayerMove s = Inr (triggerFailState ?s2)"
        using True fail by (simp add: moveTileComplete_def Let_def)
      ultimately show ?thesis by blast
    next
      case nofail: False
      have run: "moveTileComplete i x y isPlayerMove s = checkWinCondition ?s2"
        using True nofail by (auto simp add: moveTileComplete_def Let_def)
      from inv2 have rec: "currentRecipe (GameState ?s2) = Some r"
        by (simp add: boardInv_def)
      from checkWinCondition_succeeds [OF this]
      obtain s' where s': "checkWinCondition ?s2 = Inr s'" by blast
      from checkWinCondition_frame [OF s'] have "boardInv r s' = boardInv r ?s2"
        by (intro boardInv_frame) simp_all
      with inv2 s' run show ?thesis by simp
    qed
  qed
qed

lemma moveTile_keeps_boardInv:
  assumes inv: "boardInv r s" and i: "i < length (tiles s)"
  shows "\<exists>s'. moveTile i isPlayerMove s = Inr s' \<and> boardInv r s'"
proof -
  let ?n = "GRID_SIZE (GAME_CONFIG s)"
  from inv have reg: "regularGrid ?n (gridData s)"
    and e: "row (emptyPos s) < ?n" "col (emptyPos s) < ?n"
    and all: "list_all (tileOnCell ?n (gridData s)) (tiles s)"
    by (simp_all add: boardInv_def)
  from all i have t: "currentRow (tiles s ! i) < ?n" "currentCol (tiles s ! i) < ?n"
    by (simp_all add: list_all_length tileOnCell_def)
  have "inGrid (gridData s) (currentRow (tiles s ! i)) (currentCol (tiles s ! i))"
    "inGrid (gridData s) (row (emptyPos s)) (col (emptyPos s))"
    using reg e t by (simp_all add: regularGrid_inGrid)
  then show ?thesis
    using i moveTileComplete_keeps_boardInv [OF swap_keeps_boardInv [OF inv i]]
    by (simp add: moveTile_def Let_def)
qed

lemma onTileClick_keeps_boardInv:
  assumes inv: "boardInv r s" and c: "onTileClick i s = Inr s'"
  shows "boardInv r s'"
proof (cases "onTileClick i s = Inr s")
  case True
  with c inv show ?thesis by simp
next
  case False
  then have "i < length (tiles s)" "onTileClick i s = moveTile i True s"
    using c by (auto simp: onTileClick_def split: if_splits)
  with moveTile_keeps_boardInv [OF inv, of i True] c show ?thesis by auto
qed

section \<open>The solved layout\<close>

lemma regularGrid_solvedGrid: "regularGrid n (solvedGrid sq n)"
  by (simp add: regularGrid_def solvedGrid_def)

lemma solvedGrid_nth: "r < n \<Longrightarrow> c < n \<Longrightarrow> solvedGrid sq n ! r ! c = cellOf sq (r * n + c)"
  by (simp add: solvedGrid_def)

lemma concat_solvedGrid: "concat (solvedGrid sq n) = map (cellOf sq) [0..<n * n]"
proof (rule nth_equalityI)
  have rows: "\<forall>rw \<in> set (solvedGrid sq n). length rw = n"
    using regularGrid_solvedGrid [of n sq] by (simp add: regularGrid_def)
  have len: "length (solvedGrid sq n) = n" by (simp add: solvedGrid_def)
  show l: "length (concat (solvedGrid sq n)) = length (map (cellOf sq) [0..<n * n])"
    using concat_regular_length [OF rows] len by simp
  fix k assume "k < length (concat (solvedGrid sq n))"
  then have k: "k < n * n" using l by simp
  then have n: "0 < n" by (cases n) auto
  have kd: "k div n < n" using k by (simp add: less_mult_imp_div_less)
  have km: "k mod n < n" using n by simp
  have "concat (solvedGrid sq n) ! ((k div n) * n + k mod n) = solvedGrid sq n ! (k div n) ! (k mod n)"
    using concat_regular_nth [OF rows, of "k div n" "k mod n"] len kd km by simp
  then show "concat (solvedGrid sq n) ! k = map (cellOf sq) [0..<n * n] ! k"
    using k kd km by (simp add: solvedGrid_nth)
qed

lemma cells_of_sequence:
  assumes "length sq \<le> m"
  shows "map (cellOf sq) [0..<m] = sq @ replicate (m - length sq) 0"
  using assms by (intro nth_equalityI) (auto simp: cellOf_def nth_append)

lemma nonzeroCells_solvedGrid:
  assumes "0 \<notin> set sq" and "length sq \<le> n * n"
  shows "nonzeroCells (solvedGrid sq n) = mset sq"
proof -
  have "filter (\<lambda>v. v \<noteq> 0) sq = sq" using assms(1) by (auto simp: filter_id_conv)
  then show ?thesis
    using assms(2) by (simp add: nonzeroCells_def concat_solvedGrid cells_of_sequence)
qed

section \<open>The search for the empty cell\<close>

lemma scanRowForEmpty_cases:
  "scanRowForEmpty g r cs e = e \<and> (\<forall>c \<in> set cs. g ! r ! c \<noteq> 0)
   \<or> (\<exists>c \<in> set cs. g ! r ! c = 0 \<and> scanRowForEmpty g r cs e = \<lparr>row = r, col = c\<rparr>)"
  by (induction cs) auto

lemma findEmpty_zero_cell:
  assumes "set rs \<subseteq> {..<n}"
    and "(row e < n \<and> col e < n \<and> g ! row e ! col e = 0)
         \<or> (\<exists>r \<in> set rs. \<exists>c < n. g ! r ! c = 0)"
  shows "row (findEmpty g n rs e) < n \<and> col (findEmpty g n rs e) < n
         \<and> g ! row (findEmpty g n rs e) ! col (findEmpty g n rs e) = 0"
  using assms
proof (induction rs arbitrary: e)
  case Nil
  then show ?case by simp
next
  case (Cons r rs)
  let ?e = "scanRowForEmpty g r (rev [0..<n]) e"
  from Cons.prems have r: "r < n" and rs: "set rs \<subseteq> {..<n}" by auto
  have "(row ?e < n \<and> col ?e < n \<and> g ! row ?e ! col ?e = 0)
         \<or> (\<exists>r \<in> set rs. \<exists>c < n. g ! r ! c = 0)"
    using scanRowForEmpty_cases [of g r "rev [0..<n]" e] Cons.prems(2) r by auto
  from Cons.IH [OF rs this] show ?case by simp
qed

lemma tileOnCell_logical:
  "list_all (tileOnCell n g) ts
   \<longleftrightarrow> list_all (\<lambda>(v, r, c). r < n \<and> c < n \<and> g ! r ! c = v \<and> v \<noteq> 0) (map logicalTile ts)"
  by (simp add: list_all_iff tileOnCell_def logicalTile_def)

lemma positions_logical:
  "map (\<lambda>t. (currentRow t, currentCol t)) ts = map snd (map logicalTile ts)"
  by (simp add: logicalTile_def)

lemma ids_logical: "map tid ts = map fst (map logicalTile ts)"
  by (simp add: logicalTile_def)

lemma div_mod_inj: "0 < n \<Longrightarrow> inj_on (\<lambda>k::nat. (k div n, k mod n)) A"
proof (rule inj_onI)
  fix x y :: nat
  assume "(x div n, x mod n) = (y div n, y mod n)"
  then have "x div n * n + x mod n = y div n * n + y mod n" by simp
  then show "x = y" by simp
qed

lemma solved_layout_boardInv:
  assumes wf: "wellFormedRecipe r"
    and cfg: "RECIPE_MODE (GAME_CONFIG s)" "currentRecipe (GameState s) = Some r"
      "orDefault (gridSize r) 3 = GRID_SIZE (GAME_CONFIG s)"
    and g: "gridData s = solvedGrid (rsequence r) (GRID_SIZE (GAME_CONFIG s))"
    and e: "emptyPos s = findEmpty (gridData s) (GRID_SIZE (GAME_CONFIG s))
                           (rev [0..<GRID_SIZE (GAME_CONFIG s)]) e0"
    and ts: "map logicalTile (tiles s)
             = map (\<lambda>k. (rsequence r ! k, k div GRID_SIZE (GAME_CONFIG s),
                          k mod GRID_SIZE (GAME_CONFIG s))) [0..<length (rsequence r)]"
  shows "boardInv r s"
proof -
  define n where "n = GRID_SIZE (GAME_CONFIG s)"
  define sq where "sq = rsequence r"
  from wf cfg(3) have d: "distinct sq" and nz: "0 \<notin> set sq" and L: "length sq < n * n"
    by (simp_all add: wellFormedRecipe_def n_def sq_def)
  from L have n: "0 < n" by (cases n) auto
  have cell: "gridData s ! a ! b = cellOf sq (a * n + b)" if "a < n" "b < n" for a b
    using that by (simp add: g solvedGrid_nth n_def sq_def)
  have kd: "k div n < n" if "k \<le> length sq" for k
    using that L by (simp add: less_mult_imp_div_less)
  have km: "k mod n < n" for k using n by simp
  have zero: "\<exists>a \<in> set (rev [0..<n]). \<exists>b < n. gridData s ! a ! b = 0"
  proof -
    have "gridData s ! (length sq div n) ! (length sq mod n) = 0"
      using cell [OF kd km, of "length sq" "length sq"] by (simp add: cellOf_def)
    moreover have "length sq div n \<in> set (rev [0..<n])"
      using kd [of "length sq"] by simp
    ultimately show ?thesis using km [of "length sq"] by blast
  qed
  have empty: "row (emptyPos s) < n \<and> col (emptyPos s) < n
               \<and> gridData s ! row (emptyPos s) ! col (emptyPos s) = 0"
    unfolding e n_def [symmetric]
    using zero by (intro findEmpty_zero_cell) auto
  have nzk: "sq ! k \<noteq> 0" if "k < length sq" for k
    using that nz by (metis nth_mem)
  have all: "list_all (tileOnCell n (gridData s)) (tiles s)"
    unfolding tileOnCell_logical ts n_def [symmetric] sq_def [symmetric]
    using cell kd km nzk by (auto simp: list_all_iff cellOf_def)
  have dist: "distinct (map (\<lambda>t. (currentRow t, currentCol t)) (tiles s))"
    unfolding positions_logical ts n_def [symmetric] sq_def [symmetric]
    using div_mod_inj [OF n] by (simp add: distinct_map comp_def)
  have ids: "map tid (tiles s) = sq"
    unfolding ids_logical ts n_def [symmetric] sq_def [symmetric]
    by (simp add: comp_def map_nth)
  have cells: "nonzeroCells (gridData s) = mset sq"
    using nonzeroCells_solvedGrid [of sq n] nz L by (simp add: g n_def sq_def)
  show ?thesis
    using cfg empty all dist ids cells regularGrid_solvedGrid [of n sq]
    by (simp add: boardInv_def n_def sq_def g)
qed

section \<open>createGrid builds the solved layout\<close>

lemma recipeRow_step_inside:
  assumes "r * n + c < length sq" and "si = r * n + c" and "sq ! (r * n + c) \<noteq> 0"
  shows "recipeRow sq n r (c # cs) (cells, ts, si)
         = recipeRow sq n r cs
             (cells @ [sq ! (r * n + c)], ts @ [createTile r c (sq ! (r * n + c))], Suc si)"
  using assms by (simp add: Let_def)

lemma recipeRow_step_outside:
  assumes "\<not> r * n + c < length sq"
  shows "recipeRow sq n r (c # cs) (cells, ts, si) = recipeRow sq n r cs (cells @ [0], ts, si)"
  using assms by (simp add: Let_def)

lemma recipeRow_closed:
  assumes "0 \<notin> set sq" and "c0 \<le> n" and "r * n + c0 < length sq \<longrightarrow> si = r * n + c0"
  shows "\<exists>si'. recipeRow sq n r [c0..<n] (cells, ts, si)
           = (cells @ map (\<lambda>c. cellOf sq (r * n + c)) [c0..<n],
              ts @ map (\<lambda>k. createTile (k div n) (k mod n) (sq ! k))
                     [min (r * n + c0) (length sq)..<min (r * n + n) (length sq)],
              si')
         \<and> (r * n + n < length sq \<longrightarrow> si' = r * n + n)"
  using assms
proof (induction "n - c0" arbitrary: c0 cells ts si)
  case 0
  then have "c0 = n" by simp
  with "0.prems" show ?case by simp
next
  case (Suc d)
  then have c0: "c0 < n" and d: "d = n - Suc c0" by simp_all
  have upt: "[c0..<n] = c0 # [Suc c0..<n]" using c0 by (simp add: upt_conv_Cons)
  have le: "Suc c0 \<le> n" using c0 by simp
  show ?case
  proof (cases "r * n + c0 < length sq")
    case True
    with Suc.prems have si: "si = r * n + c0" by simp
    have v: "sq ! (r * n + c0) \<noteq> 0" using True Suc.prems(1) by (metis nth_mem)
    have next_si: "r * n + Suc c0 < length sq \<longrightarrow> Suc si = r * n + Suc c0"
      using si by simp
    from Suc.hyps(1) [OF d Suc.prems(1) le next_si,
        of "cells @ [sq ! (r * n + c0)]" "ts @ [createTile r c0 (sq ! (r * n + c0))]"]
    obtain si' where
      rec: "recipeRow sq n r [Suc c0..<n]
              (cells @ [sq ! (r * n + c0)], ts @ [createTile r c0 (sq ! (r * n + c0))], Suc si)
            = ((cells @ [sq ! (r * n + c0)]) @ map (\<lambda>c. cellOf sq (r * n + c)) [Suc c0..<n],
               (ts @ [createTile r c0 (sq ! (r * n + c0))])
                 @ map (\<lambda>k. createTile (k div n) (k mod n) (sq ! k))
                     [min (r * n + Suc c0) (length sq)..<min (r * n + n) (length sq)],
               si')"
      and fin: "r * n + n < length sq \<longrightarrow> si' = r * n + n"
      by blast
    have rng: "[min (r * n + c0) (length sq)..<min (r * n + n) (length sq)]
               = (r * n + c0) # [min (r * n + Suc c0) (length sq)..<min (r * n + n) (length sq)]"
      using True c0 by (simp add: upt_conv_Cons min_def)
    have tile: "createTile ((r * n + c0) div n) ((r * n + c0) mod n) (sq ! (r * n + c0))
                = createTile r c0 (sq ! (r * n + c0))"
      using c0 by simp
    have cell: "cellOf sq (r * n + c0) = sq ! (r * n + c0)"
      using True by (simp add: cellOf_def)
    have "recipeRow sq n r [c0..<n] (cells, ts, si)
          = (cells @ map (\<lambda>c. cellOf sq (r * n + c)) [c0..<n],
              ts @ map (\<lambda>k. createTile (k div n) (k mod n) (sq ! k))
                     [min (r * n + c0) (length sq)..<min (r * n + n) (length sq)],
              si')"
      unfolding upt recipeRow_step_inside [OF True si v] rec rng
      using c0 by (simp add: cell)
    with fin show ?thesis by blast
  next
    case False
    have next_si: "r * n + Suc c0 < length sq \<longrightarrow> si = r * n + Suc c0"
      using False by simp
    from Suc.hyps(1) [OF d Suc.prems(1) le next_si, of "cells @ [0]" ts]
    obtain si' where
      rec: "recipeRow sq n r [Suc c0..<n] (cells @ [0], ts, si)
            = ((cells @ [0]) @ map (\<lambda>c. cellOf sq (r * n + c)) [Suc c0..<n],
               ts @ map (\<lambda>k. createTile (k div n) (k mod n) (sq ! k))
                     [min (r * n + Suc c0) (length sq)..<min (r * n + n) (length sq)],
               si')"
      and fin: "r * n + n < length sq \<longrightarrow> si' = r * n + n"
      by blast
    have rng: "[min (r * n + c0) (length sq)..<min (r * n + n) (length sq)]
               = [min (r * n + Suc c0) (length sq)..<min (r * n + n) (length sq)]"
      using False by (simp add: min_def)
    have cell: "cellOf sq (r * n + c0) = 0"
      using False by (simp add: cellOf_def)
    have "recipeRow sq n r [c0..<n] (cells, ts, si)
          = (cells @ map (\<lambda>c. cellOf sq (r * n + c)) [c0..<n],
              ts @ map (\<lambda>k. createTile (k div n) (k mod n) (sq ! k))
                     [min (r * n + c0) (length sq)..<min (r * n + n) (length sq)],
              si')"
      unfolding upt recipeRow_step_outside [OF False] rec rng
      by (simp add: cell)
    with fin show ?thesis by blast
  qed
qed

lemma upt_join:
  assumes "a \<le> b" and "b \<le> (c::nat)"
  shows "[a..<b] @ [b..<c] = [a..<c]"
proof -
  from assms obtain k where k: "c = b + k" by (auto simp: le_iff_add)
  from upt_add_eq_append [OF assms(1), of k] show ?thesis unfolding k by (rule sym)
qed

lemma recipeRows_closed:
  assumes "0 \<notin> set sq" and "r0 \<le> r1" and "r0 * n < length sq \<longrightarrow> si = r0 * n"
  shows "\<exists>si'. recipeRows sq n [r0..<r1] (g, ts, si)
           = (g @ map (\<lambda>r. map (\<lambda>c. cellOf sq (r * n + c)) [0..<n]) [r0..<r1],
              ts @ map (\<lambda>k. createTile (k div n) (k mod n) (sq ! k))
                     [min (r0 * n) (length sq)..<min (r1 * n) (length sq)],
              si')"
  using assms
proof (induction "r1 - r0" arbitrary: r0 g ts si)
  case 0
  then have "r0 = r1" by simp
  then show ?case by simp
next
  case (Suc d)
  then have r0: "r0 < r1" and d: "d = r1 - Suc r0" by simp_all
  have upt: "[r0..<r1] = r0 # [Suc r0..<r1]" using r0 by (simp add: upt_conv_Cons)
  have le: "Suc r0 \<le> r1" using r0 by simp
  have start: "r0 * n + 0 < length sq \<longrightarrow> si = r0 * n + 0"
    using Suc.prems(3) by simp
  from recipeRow_closed [OF Suc.prems(1) _ start, where cells = "[]" and ts = ts]
  obtain si1 where
    row: "recipeRow sq n r0 [0..<n] ([], ts, si)
          = ([] @ map (\<lambda>c. cellOf sq (r0 * n + c)) [0..<n],
             ts @ map (\<lambda>k. createTile (k div n) (k mod n) (sq ! k))
                    [min (r0 * n + 0) (length sq)..<min (r0 * n + n) (length sq)],
             si1)"
    and si1: "r0 * n + n < length sq \<longrightarrow> si1 = r0 * n + n"
    by blast
  have next_si: "Suc r0 * n < length sq \<longrightarrow> si1 = Suc r0 * n"
    using si1 by (simp add: add.commute)
  from Suc.hyps(1) [OF d Suc.prems(1) le next_si,
      where g = "g @ [map (\<lambda>c. cellOf sq (r0 * n + c)) [0..<n]]"
        and ts = "ts @ map (\<lambda>k. createTile (k div n) (k mod n) (sq ! k))
                    [min (r0 * n) (length sq)..<min (r0 * n + n) (length sq)]"]
  obtain si' where
    rec: "recipeRows sq n [Suc r0..<r1]
            (g @ [map (\<lambda>c. cellOf sq (r0 * n + c)) [0..<n]],
             ts @ map (\<lambda>k. createTile (k div n) (k mod n) (sq ! k))
                    [min (r0 * n) (length sq)..<min (r0 * n + n) (length sq)],
             si1)
          = ((g @ [map (\<lambda>c. cellOf sq (r0 * n + c)) [0..<n]])
               @ map (\<lambda>r. map (\<lambda>c. cellOf sq (r * n + c)) [0..<n]) [Suc r0..<r1],
             (ts @ map (\<lambda>k. createTile (k div n) (k mod n) (sq ! k))
                    [min (r0 * n) (length sq)..<min (r0 * n + n) (length sq)])
               @ map (\<lambda>k. createTile (k div n) (k mod n) (sq ! k))
                    [min (Suc r0 * n) (length sq)..<min (r1 * n) (length sq)],
             si')"
    by blast
  have mono: "Suc r0 * n \<le> r1 * n" using le by (rule mult_le_mono1)
  have eq: "r0 * n + n = Suc r0 * n" by simp
  have join: "[min (r0 * n) (length sq)..<min (r0 * n + n) (length sq)]
                @ [min (Suc r0 * n) (length sq)..<min (r1 * n) (length sq)]
              = [min (r0 * n) (length sq)..<min (r1 * n) (length sq)]"
    unfolding eq using mono by (intro upt_join) (simp_all add: min_def)
  have step: "recipeRows sq n [r0..<r1] (g, ts, si)
              = recipeRows sq n [Suc r0..<r1]
                  (g @ [map (\<lambda>c. cellOf sq (r0 * n + c)) [0..<n]],
                   ts @ map (\<lambda>k. createTile (k div n) (k mod n) (sq ! k))
                          [min (r0 * n) (length sq)..<min (r0 * n + n) (length sq)],
                   si1)"
    unfolding upt using row by simp
  have "recipeRows sq n [r0..<r1] (g, ts, si)
        = (g @ map (\<lambda>r. map (\<lambda>c. cellOf sq (r * n + c)) [0..<n]) [r0..<r1],
              ts @ map (\<lambda>k. createTile (k div n) (k mod n) (sq ! k))
                     [min (r0 * n) (length sq)..<min (r1 * n) (length sq)],
              si')"
    unfolding step rec join [symmetric] by (simp add: upt)
  then show ?case by blast
qed

lemma createGrid_recipe:
  assumes "0 \<notin> set (rsequence r)" and "length (rsequence r) \<le> n * n"
    and "RECIPE_MODE (GAME_CONFIG s)" and "currentRecipe (GameState s) = Some r"
  shows "createGrid n s
         = s\<lparr>tiles := map (\<lambda>k. createTile (k div n) (k mod n) (rsequence r ! k))
                          [0..<length (rsequence r)],
              gridData := solvedGrid (rsequence r) n,
              emptyPos := findEmpty (solvedGrid (rsequence r) n) n (rev [0..<n]) (emptyPos s),
              moveCount := 0, isWon := False, hasFailed := False\<rparr>"
proof -
  have start: "0 * n < length (rsequence r) \<longrightarrow> (0::nat) = 0 * n" by simp
  from recipeRows_closed [OF assms(1) _ start, where ?r1.0 = n and g = "[]" and ts = "[]"]
  obtain si' where
    "recipeRows (rsequence r) n [0..<n] ([], [], 0)
     = ([] @ map (\<lambda>r'. map (\<lambda>c. cellOf (rsequence r) (r' * n + c)) [0..<n]) [0..<n],
        [] @ map (\<lambda>k. createTile (k div n) (k mod n) (rsequence r ! k))
               [min (0 * n) (length (rsequence r))..<min (n * n) (length (rsequence r))],
        si')"
    by blast
  then have "recipeRows (rsequence r) n [0..<n] ([], [], 0)
     = (solvedGrid (rsequence r) n,
        map (\<lambda>k. createTile (k div n) (k mod n) (rsequence r ! k)) [0..<length (rsequence r)],
        si')"
    using assms(2) by (simp add: solvedGrid_def min_def)
  then show ?thesis
    using assms(3,4) by (simp add: createGrid_def)
qed

lemma createGrid_boardInv:
  assumes wf: "wellFormedRecipe r" and mode: "RECIPE_MODE (GAME_CONFIG w)"
  shows "boardInv r (createGrid (GRID_SIZE (GAME_CONFIG (selectRecipe r w))) (selectRecipe r w))"
proof -
  define n where "n = orDefault (gridSize r) 3"
  define s0 where "s0 = selectRecipe r w"
  have cfg: "RECIPE_MODE (GAME_CONFIG s0)" "currentRecipe (GameState s0) = Some r"
    "GRID_SIZE (GAME_CONFIG s0) = n"
    using mode by (simp_all add: s0_def selectRecipe_def applyRecipeConfig_def n_def)
  from wf have nz: "0 \<notin> set (rsequence r)" and L: "length (rsequence r) \<le> n * n"
    by (simp_all add: wellFormedRecipe_def n_def)
  note cg = createGrid_recipe [OF nz L cfg(1,2)]
  have "boardInv r (createGrid n s0)"
  proof (rule solved_layout_boardInv [OF wf, where ?e0.0 = "emptyPos s0"])
    show "RECIPE_MODE (GAME_CONFIG (createGrid n s0))" using cfg by (simp add: cg)
    show "currentRecipe (GameState (createGrid n s0)) = Some r" using cfg by (simp add: cg)
    show "orDefault (gridSize r) 3 = GRID_SIZE (GAME_CONFIG (createGrid n s0))"
      unfolding cg using cfg by (simp add: n_def)
    show "gridData (createGrid n s0)
          = solvedGrid (rsequence r) (GRID_SIZE (GAME_CONFIG (createGrid n s0)))"
      using cfg by (simp add: cg)
    show "emptyPos (createGrid n s0)
          = findEmpty (gridData (createGrid n s0)) (GRID_SIZE (GAME_CONFIG (createGrid n s0)))
              (rev [0..<GRID_SIZE (GAME_CONFIG (createGrid n s0))]) (emptyPos s0)"
      using cfg by (simp add: cg)
    show "map logicalTile (tiles (createGrid n s0))
          = map (\<lambda>k. (rsequence r ! k, k div GRID_SIZE (GAME_CONFIG (createGrid n s0)),
                       k mod GRID_SIZE (GAME_CONFIG (createGrid n s0))))
              [0..<length (rsequence r)]"
      using cfg by (simp add: cg logicalTile_def createTile_def comp_def)
  qed
  then show ?thesis using cfg by (simp add: s0_def)
qed

section \<open>resetGridToSolved restores the solved layout\<close>

lemma solvedRow_step:
  assumes "inGrid g r c"
  shows "solvedRow sq n r (c # cs) (g, si)
         = solvedRow sq n r cs
             (setCell r c (if r * n + c < length sq then sq ! si else 0) g,
              if r * n + c < length sq then Suc si else si)"
  using assms by (simp add: Let_def)

lemma solvedRow_closed:
  assumes "regularGrid n g" and "r < n" and "c0 \<le> n"
    and "r * n + c0 < length sq \<longrightarrow> si = r * n + c0"
  shows "\<exists>g' si'. solvedRow sq n r [c0..<n] (g, si) = Inr (g', si') \<and> regularGrid n g'
           \<and> (\<forall>a < n. \<forall>b < n. g' ! a ! b
                  = (if a = r \<and> c0 \<le> b then cellOf sq (r * n + b) else g ! a ! b))
           \<and> (r * n + n < length sq \<longrightarrow> si' = r * n + n)"
  using assms
proof (induction "n - c0" arbitrary: c0 g si)
  case 0
  then have "c0 = n" by simp
  with "0.prems" show ?case by auto
next
  case (Suc d)
  then have c0: "c0 < n" and d: "d = n - Suc c0" by simp_all
  have upt: "[c0..<n] = c0 # [Suc c0..<n]" using c0 by (simp add: upt_conv_Cons)
  have le: "Suc c0 \<le> n" using c0 by simp
  let ?v = "if r * n + c0 < length sq then sq ! si else 0"
  let ?si = "if r * n + c0 < length sq then Suc si else si"
  let ?g = "setCell r c0 ?v g"
  have ing: "inGrid g r c0"
    using Suc.prems(1,2) c0 by (rule regularGrid_inGrid)
  have reg: "regularGrid n ?g" using Suc.prems(1) by (rule regularGrid_setCell)
  have v: "?v = cellOf sq (r * n + c0)"
    using Suc.prems(4) by (simp add: cellOf_def)
  have next_si: "r * n + Suc c0 < length sq \<longrightarrow> ?si = r * n + Suc c0"
    using Suc.prems(4) by simp
  from Suc.hyps(1) [OF d reg Suc.prems(2) le next_si]
  obtain g' si' where
    rec: "solvedRow sq n r [Suc c0..<n] (?g, ?si) = Inr (g', si')"
    and reg': "regularGrid n g'"
    and cells: "\<forall>a < n. \<forall>b < n. g' ! a ! b
                  = (if a = r \<and> Suc c0 \<le> b then cellOf sq (r * n + b) else ?g ! a ! b)"
    and fin: "r * n + n < length sq \<longrightarrow> si' = r * n + n"
    by blast
  have run: "solvedRow sq n r [c0..<n] (g, si) = Inr (g', si')"
    unfolding upt solvedRow_step [OF ing] rec ..
  have "g' ! a ! b = (if a = r \<and> c0 \<le> b then cellOf sq (r * n + b) else g ! a ! b)"
    if "a < n" "b < n" for a b
  proof -
    have "?g ! a ! b = (if a = r \<and> b = c0 then ?v else g ! a ! b)"
      using setCell_nth [OF Suc.prems(1,2) c0 that] .
    with cells that v show ?thesis by (auto simp: Suc_le_eq le_less)
  qed
  with run reg' fin show ?case by blast
qed

lemma solvedRows_closed:
  assumes "regularGrid n g" and "r0 \<le> n" and "r0 * n < length sq \<longrightarrow> si = r0 * n"
  shows "\<exists>g' si'. solvedRows sq n [r0..<n] (g, si) = Inr (g', si') \<and> regularGrid n g'
           \<and> (\<forall>a < n. \<forall>b < n. g' ! a ! b
                  = (if r0 \<le> a then cellOf sq (a * n + b) else g ! a ! b))"
  using assms
proof (induction "n - r0" arbitrary: r0 g si)
  case 0
  then have "r0 = n" by simp
  with "0.prems" show ?case by auto
next
  case (Suc d)
  then have r0: "r0 < n" and d: "d = n - Suc r0" by simp_all
  have upt: "[r0..<n] = r0 # [Suc r0..<n]" using r0 by (simp add: upt_conv_Cons)
  have le: "Suc r0 \<le> n" using r0 by simp
  have start: "r0 * n + 0 < length sq \<longrightarrow> si = r0 * n + 0"
    using Suc.prems(3) by simp
  from solvedRow_closed [OF Suc.prems(1) r0 _ start]
  obtain g1 si1 where
    row: "solvedRow sq n r0 [0..<n] (g, si) = Inr (g1, si1)"
    and reg1: "regularGrid n g1"
    and cells1: "\<forall>a < n. \<forall>b < n. g1 ! a ! b
                  = (if a = r0 \<and> 0 \<le> b then cellOf sq (r0 * n + b) else g ! a ! b)"
    and si1: "r0 * n + n < length sq \<longrightarrow> si1 = r0 * n + n"
    by blast
  have next_si: "Suc r0 * n < length sq \<longrightarrow> si1 = Suc r0 * n"
    using si1 by (simp add: add.commute)
  from Suc.hyps(1) [OF d reg1 le next_si]
  obtain g' si' where
    rec: "solvedRows sq n [Suc r0..<n] (g1, si1) = Inr (g', si')"
    and reg': "regularGrid n g'"
    and cells: "\<forall>a < n. \<forall>b < n. g' ! a ! b
                  = (if Suc r0 \<le> a then cellOf sq (a * n + b) else g1 ! a ! b)"
    by blast
  have run: "solvedRows sq n [r0..<n] (g, si) = Inr (g', si')"
    unfolding upt using row rec by simp
  have "g' ! a ! b = (if r0 \<le> a then cellOf sq (a * n + b) else g ! a ! b)"
    if "a < n" "b < n" for a b
    using cells cells1 that by (auto simp: Suc_le_eq le_less)
  with run reg' show ?case by blast
qed

lemma regularGrid_eqI:
  assumes "regularGrid n g" and "regularGrid n g'"
    and "\<And>a b. a < n \<Longrightarrow> b < n \<Longrightarrow> g ! a ! b = g' ! a ! b"
  shows "g = g'"
proof (rule nth_equalityI)
  show "length g = length g'" using assms(1,2) by (simp add: regularGrid_def)
  fix a assume a: "a < length g"
  then have an: "a < n" using assms(1) by (simp add: regularGrid_def)
  have la: "length (g ! a) = n" "length (g' ! a) = n"
    using assms(1,2) an by (simp_all add: regularGrid_def)
  show "g ! a = g' ! a"
    using la assms(3) [OF an] by (intro nth_equalityI) simp_all
qed

lemma solvedRows_solvedGrid:
  assumes "regularGrid n g"
  shows "\<exists>si'. solvedRows sq n [0..<n] (g, 0) = Inr (solvedGrid sq n, si')"
proof -
  have start: "0 * n < length sq \<longrightarrow> (0::nat) = 0 * n" by simp
  from solvedRows_closed [OF assms _ start]
  obtain g' si' where run: "solvedRows sq n [0..<n] (g, 0) = Inr (g', si')"
    and reg': "regularGrid n g'"
    and cells: "\<forall>a < n. \<forall>b < n. g' ! a ! b = (if 0 \<le> a then cellOf sq (a * n + b) else g ! a ! b)"
    by blast
  have "g' = solvedGrid sq n"
    using reg' regularGrid_solvedGrid cells by (intro regularGrid_eqI [of n]) (simp_all add: solvedGrid_nth)
  with run show ?thesis by blast
qed

lemma scanRowForId_cases:
  "scanRowForId g r cs v target = target \<and> (\<forall>c \<in> set cs. g ! r ! c \<noteq> v)
   \<or> (\<exists>c \<in> set cs. g ! r ! c = v \<and> scanRowForId g r cs v target = Some (r, c))"
  by (induction cs) auto

lemma findTarget_found:
  assumes "set rs \<subseteq> {..<n}"
    and "(\<exists>a b. target = Some (a, b) \<and> a < n \<and> b < n \<and> g ! a ! b = v)
         \<or> (\<exists>a \<in> set rs. \<exists>b < n. g ! a ! b = v)"
  shows "\<exists>a b. findTarget g n rs v target = Some (a, b) \<and> a < n \<and> b < n \<and> g ! a ! b = v"
  using assms
proof (induction rs arbitrary: target)
  case Nil
  then show ?case by simp
next
  case (Cons r rs)
  let ?t = "scanRowForId g r [0..<n] v target"
  from Cons.prems have r: "r < n" and rs: "set rs \<subseteq> {..<n}" by auto
  have "(\<exists>a b. ?t = Some (a, b) \<and> a < n \<and> b < n \<and> g ! a ! b = v)
         \<or> (\<exists>a \<in> set rs. \<exists>b < n. g ! a ! b = v)"
    using scanRowForId_cases [of g r "[0..<n]" v target] Cons.prems(2) r by auto
  from Cons.IH [OF rs this] show ?case by simp
qed

lemma solvedGrid_unique_cell:
  assumes "distinct sq" and "0 \<notin> set sq" and "k < length sq"
    and "a < n" and "b < n" and "solvedGrid sq n ! a ! b = sq ! k"
  shows "a = k div n \<and> b = k mod n"
proof -
  have nz: "sq ! k \<noteq> 0" using assms(2,3) by (metis nth_mem)
  from assms(4-6) have c: "cellOf sq (a * n + b) = sq ! k" by (simp add: solvedGrid_nth)
  with nz have lt: "a * n + b < length sq" by (auto simp: cellOf_def split: if_splits)
  with c have "sq ! (a * n + b) = sq ! k" by (simp add: cellOf_def)
  with assms(1,3) lt have "a * n + b = k" by (simp add: nth_eq_iff_index_eq)
  with assms(5) show ?thesis by auto
qed

lemma relocateTile_solvedGrid:
  assumes "distinct sq" and "0 \<notin> set sq" and "length sq < n * n" and "k < length sq"
    and "tid t = sq ! k"
  shows "logicalTile (relocateTile (solvedGrid sq n) n t) = (sq ! k, k div n, k mod n)"
proof -
  from assms(3) have n: "0 < n" by (cases n) auto
  have kd: "k div n < n" using assms(3,4) by (simp add: less_mult_imp_div_less)
  have km: "k mod n < n" using n by simp
  have "solvedGrid sq n ! (k div n) ! (k mod n) = sq ! k"
    using kd km assms(4) by (simp add: solvedGrid_nth cellOf_def)
  moreover have "k div n \<in> set [0..<n]" using kd by simp
  ultimately have "\<exists>a \<in> set [0..<n]. \<exists>b < n. solvedGrid sq n ! a ! b = sq ! k"
    using km by blast
  then have "\<exists>a b. findTarget (solvedGrid sq n) n [0..<n] (sq ! k) None = Some (a, b)
               \<and> a < n \<and> b < n \<and> solvedGrid sq n ! a ! b = sq ! k"
    by (intro findTarget_found) auto
  then obtain a b where
    f: "findTarget (solvedGrid sq n) n [0..<n] (sq ! k) None = Some (a, b)"
    and ab: "a < n" "b < n" "solvedGrid sq n ! a ! b = sq ! k"
    by blast
  from solvedGrid_unique_cell [OF assms(1,2,4) ab] f assms(5) show ?thesis
    by (simp add: relocateTile_def logicalTile_def)
qed

lemma resetGridToSolved_boardInv:
  assumes wf: "wellFormedRecipe r" and inv: "boardInv r s"
  shows "\<exists>s'. resetGridToSolved s = Inr s' \<and> boardInv r s'"
proof -
  define n where "n = GRID_SIZE (GAME_CONFIG s)"
  define sq where "sq = rsequence r"
  from inv have cfg: "RECIPE_MODE (GAME_CONFIG s)" "currentRecipe (GameState s) = Some r"
    "orDefault (gridSize r) 3 = n"
    and reg: "regularGrid n (gridData s)" and ids: "map tid (tiles s) = sq"
    by (simp_all add: boardInv_def n_def sq_def)
  from wf cfg(3) have d: "distinct sq" and nz: "0 \<notin> set sq" and L: "length sq < n * n"
    by (simp_all add: wellFormedRecipe_def sq_def)
  from solvedRows_solvedGrid [OF reg] obtain si' where
    rows: "solvedRows sq n [0..<n] (gridData s, 0) = Inr (solvedGrid sq n, si')"
    by blast
  define s' where
    "s' = s\<lparr>gridData := solvedGrid sq n,
             emptyPos := findEmpty (solvedGrid sq n) n (rev [0..<n]) (emptyPos s),
             tiles := map (relocateTile (solvedGrid sq n) n) (tiles s)\<rparr>"
  have run: "resetGridToSolved s = Inr s'"
    using cfg(1,2) rows
    by (simp add: resetGridToSolved_def Let_def n_def [symmetric] sq_def [symmetric] s'_def)
  have len: "length (tiles s) = length sq"
    using ids by (metis length_map)
  have ts: "map logicalTile (tiles s')
            = map (\<lambda>k. (sq ! k, k div n, k mod n)) [0..<length sq]"
  proof (rule nth_equalityI)
    show "length (map logicalTile (tiles s'))
          = length (map (\<lambda>k. (sq ! k, k div n, k mod n)) [0..<length sq])"
      using len by (simp add: s'_def)
    fix k assume "k < length (map logicalTile (tiles s'))"
    then have k: "k < length sq" using len by (simp add: s'_def)
    have "tid (tiles s ! k) = sq ! k"
      using ids k len by (metis nth_map)
    from relocateTile_solvedGrid [OF d nz L k this] k len
    show "map logicalTile (tiles s') ! k
          = map (\<lambda>k. (sq ! k, k div n, k mod n)) [0..<length sq] ! k"
      by (simp add: s'_def)
  qed
  have "boardInv r s'"
  proof (rule solved_layout_boardInv [OF wf, where ?e0.0 = "emptyPos s"])
    show "RECIPE_MODE (GAME_CONFIG s')" using cfg by (simp add: s'_def)
    show "currentRecipe (GameState s') = Some r" using cfg by (simp add: s'_def)
    show "orDefault (gridSize r) 3 = GRID_SIZE (GAME_CONFIG s')"
      using cfg by (simp add: s'_def n_def)
    show "gridData s' = solvedGrid (rsequence r) (GRID_SIZE (GAME_CONFIG s'))"
      by (simp add: s'_def n_def sq_def)
    show "emptyPos s' = findEmpty (gridData s') (GRID_SIZE (GAME_CONFIG s'))
              (rev [0..<GRID_SIZE (GAME_CONFIG s')]) (emptyPos s)"
      by (simp add: s'_def n_def)
    show "map logicalTile (tiles s')
          = map (\<lambda>k. (rsequence r ! k, k div GRID_SIZE (GAME_CONFIG s'),
                       k mod GRID_SIZE (GAME_CONFIG s'))) [0..<length (rsequence r)]"
      using ts by (simp add: s'_def n_def sq_def)
  qed
  with run show ?thesis by blast
qed

section \<open>The invariant holds in every reachable world\<close>

lemma reachable_boardInv:
  assumes wf: "wellFormedRecipe r" and "reachable r s"
  shows "boardInv r s"
  using assms(2)
proof (induction rule: reachable.induct)
  case (created w)
  then show ?case using wf by (intro createGrid_boardInv)
next
  case (solvedReset s s')
  have "boardInv r (s\<lparr>isShuffling := True\<rparr>)"
    using solvedReset.IH boardInv_frame [of "s\<lparr>isShuffling := True\<rparr>" s r] by simp
  from resetGridToSolved_boardInv [OF wf this] solvedReset.hyps(2) show ?case by auto
next
  case (shuffleMove s i l s')
  have "i < length (tiles s)"
    using shuffleMove.hyps(2) shuffleCandidates_subset [of l s] movableTiles_legal [of i s]
    by auto
  from moveTile_keeps_boardInv [OF shuffleMove.IH this, of False] shuffleMove.hyps(3)
  show ?case by auto
next
  case (hybridPass s rng k)
  from makeHybridMove_frame [of "HYBRID_SHUFFLE_COUNT (GAME_CONFIG s)" rng k 0 s]
  obtain ts b where "performHybridShuffle rng k s = s\<lparr>tiles := ts, isShuffling := b\<rparr>"
    "map logicalTile ts = map logicalTile (tiles s)"
    by (auto simp: performHybridShuffle_def)
  then show ?case
    using hybridPass.IH boardInv_frame [of "performHybridShuffle rng k s" s r] by simp
next
  case (shuffleDone s)
  then show ?case using boardInv_frame [of "s\<lparr>isShuffling := False\<rparr>" s r] by simp
next
  case (playerMove s i s')
  then show ?case using onTileClick_keeps_boardInv by blast
next
  case (countersCleared s)
  then show ?case
    using boardInv_frame [of "s\<lparr>moveCount := 0, isWon := False, hasFailed := False\<rparr>" s r]
    by simp
qed

lemma boardInv_zeroCount:
  assumes "boardInv r s"
  shows "zeroCount (gridData s)
         = GRID_SIZE (GAME_CONFIG s) * GRID_SIZE (GAME_CONFIG s) - length (rsequence r)"
proof -
  let ?n = "GRID_SIZE (GAME_CONFIG s)"
  let ?fl = "concat (gridData s)"
  from assms have reg: "regularGrid ?n (gridData s)"
    and nz: "nonzeroCells (gridData s) = mset (rsequence r)"
    by (simp_all add: boardInv_def)
  from reg have "length ?fl = ?n * ?n"
    using concat_regular_length [of "gridData s" ?n] by (simp add: regularGrid_def)
  moreover have "length (filter (\<lambda>v. v \<noteq> 0) ?fl) = length (rsequence r)"
    using nz by (metis nonzeroCells_def size_mset)
  moreover have "length (filter (\<lambda>v. v = 0) ?fl) + length (filter (\<lambda>v. \<not> v = 0) ?fl) = length ?fl"
    by (rule sum_length_filter_compl)
  ultimately show ?thesis by (simp add: zeroCount_def)
qed

lemma catalogue_wellFormed: "list_all wellFormedRecipe RECIPES"
  by (simp add: catalogue_defs wellFormedRecipe_def orDefault_def)

lemma createBoard_reachable: "reachable leafy_stack (createBoard initialWorld)"
proof -
  have "createBoard initialWorld
        = createGrid (GRID_SIZE (GAME_CONFIG (selectRecipe leafy_stack initialWorld)))
            (selectRecipe leafy_stack initialWorld)"
    by (simp add: createBoard_def setupRecipe_def selectRecipe_def getRecipeById_def
        validateRecipe_def initialWorld_def initialConfig_def catalogue_defs Let_def)
  moreover have "RECIPE_MODE (GAME_CONFIG initialWorld)"
    by (simp add: initialWorld_def initialConfig_def)
  ultimately show ?thesis using reachable.created [of initialWorld leafy_stack] by simp
qed

section \<open>The shuffle stays within the reachable worlds and never fails\<close>

lemma makeShuffleMove_reachable:
  assumes wf: "wellFormedRecipe r"
  shows "reachable r s
         \<Longrightarrow> \<exists>steps s'. makeShuffleMove moves rng k currentMove lastMovedTile s = Inr (steps, s')
               \<and> reachable r s' \<and> length steps = moves - currentMove"
proof (induction moves rng k currentMove lastMovedTile s rule: makeShuffleMove.induct)
  case (1 moves rng k currentMove lastMovedTile s)
  show ?case
  proof (cases "currentMove \<ge> moves")
    case True
    have "reachable r (performHybridShuffle rng k s)" "reachable r (s\<lparr>isShuffling := False\<rparr>)"
      using "1.prems" by (auto intro: reachable.intros)
    with True show ?thesis by (subst makeShuffleMove.simps) simp
  next
    case False
    let ?movable = "shuffleCandidates lastMovedTile s"
    show ?thesis
    proof (cases "length ?movable > 0")
      case True
      let ?b = "?movable ! randomIndex (rng k) (length ?movable)"
      have b: "?b \<in> set ?movable"
        using True randomIndex_less [of "length ?movable" "rng k"] by simp
      then have "?b < length (tiles s)"
        using shuffleCandidates_subset [of lastMovedTile s] movableTiles_legal [of ?b s] by auto
      from moveTile_keeps_boardInv [OF reachable_boardInv [OF wf "1.prems"] this, of False]
      obtain s1 where mv: "moveTile ?b False s = Inr s1" by blast
      have r1: "reachable r s1" using "1.prems" b mv by (rule reachable.shuffleMove)
      from "1.IH"(1) [OF False refl True refl mv r1]
      obtain rest s' where
        rec: "makeShuffleMove moves rng (k + 2) (Suc currentMove) (Some ?b) s1 = Inr (rest, s')"
        and r': "reachable r s'" and len: "length rest = moves - Suc currentMove"
        by blast
      have "makeShuffleMove moves rng k currentMove lastMovedTile s
            = Inr ((length (movableTiles s), Some ?b) # rest, s')"
        using False True mv rec by (subst makeShuffleMove.simps) (simp add: Let_def)
      with r' len False show ?thesis by auto
    next
      case F2: False
      from "1.IH"(2) [OF False refl F2 "1.prems"]
      obtain rest s' where
        rec: "makeShuffleMove moves rng k (Suc currentMove) lastMovedTile s = Inr (rest, s')"
        and r': "reachable r s'" and len: "length rest = moves - Suc currentMove"
        by blast
      have "makeShuffleMove moves rng k currentMove lastMovedTile s
            = Inr ((length (movableTiles s), None) # rest, s')"
        using False F2 rec by (subst makeShuffleMove.simps) (simp add: Let_def)
      with r' len False show ?thesis by auto
    qed
  qed
qed

lemma performAnimatedShuffle_reachable:
  assumes wf: "wellFormedRecipe r" and "reachable r s"
  shows "\<exists>steps s'. performAnimatedShuffle rng s = Inr (steps, s') \<and> reachable r s'
           \<and> length steps = SHUFFLE_MOVE_COUNT (GAME_CONFIG s)"
proof -
  have "boardInv r (s\<lparr>isShuffling := True\<rparr>)"
    using reachable_boardInv [OF assms] boardInv_frame [of "s\<lparr>isShuffling := True\<rparr>" s r]
    by simp
  from resetGridToSolved_boardInv [OF wf this]
  obtain s1 where rs: "resetGridToSolved (s\<lparr>isShuffling := True\<rparr>) = Inr s1" by blast
  have cfg: "GAME_CONFIG s1 = GAME_CONFIG s"
    using rs by (auto simp: resetGridToSolved_def Let_def split: sum.splits option.splits if_splits)
  have "reachable r s1" using assms(2) rs by (rule reachable.solvedReset)
  from makeShuffleMove_reachable [OF wf this, of "SHUFFLE_MOVE_COUNT (GAME_CONFIG s1)" rng 0 0 None]
  show ?thesis using rs cfg by (simp add: performAnimatedShuffle_def)
qed

section \<open>The empty cell and the zeros of the grid\<close>

text \<open>
  Claim C6 as stated does not hold: the start board of the default recipe
  \<open>leafy_stack\<close>, a reachable world, has five cells holding 0.
\<close>

theorem several_empty_cells_counterexample:
  "reachable leafy_stack (createBoard initialWorld)
   \<and> gridData (createBoard initialWorld) = [[1, 2, 3], [8, 0, 0], [0, 0, 0]]
   \<and> zeroCount (gridData (createBoard initialWorld)) = 5"
  using createBoard_reachable by (simp add: createBoard_initial zeroCount_def)

text \<open>
  Claim C6, amended. In every reachable world of a session whose recipe is well
  formed, the empty position lies inside the grid and its cell holds 0, and the
  number of cells holding 0 is the number of cells of the grid minus the length of
  the recipe's sequence: the same number in every world of the session, and one
  exactly when the sequence fills all cells but one.
\<close>

theorem empty_cell_invariant:
  "wellFormedRecipe r \<and> reachable r s \<longrightarrow>
     row (emptyPos s) < GRID_SIZE (GAME_CONFIG s) \<and> col (emptyPos s) < GRID_SIZE (GAME_CONFIG s)
     \<and> gridData s ! row (emptyPos s) ! col (emptyPos s) = 0
     \<and> zeroCount (gridData s)
         = GRID_SIZE (GAME_CONFIG s) * GRID_SIZE (GAME_CONFIG s) - length (rsequence r)
     \<and> (zeroCount (gridData s) = 1
         \<longleftrightarrow> Suc (length (rsequence r)) = GRID_SIZE (GAME_CONFIG s) * GRID_SIZE (GAME_CONFIG s))"
proof (intro impI)
  assume a: "wellFormedRecipe r \<and> reachable r s"
  then have inv: "boardInv r s" using reachable_boardInv by blast
  have "length (rsequence r) < GRID_SIZE (GAME_CONFIG s) * GRID_SIZE (GAME_CONFIG s)"
    using a inv by (simp add: wellFormedRecipe_def boardInv_def)
  with boardInv_zeroCount [OF inv] inv
  show "row (emptyPos s) < GRID_SIZE (GAME_CONFIG s) \<and> col (emptyPos s) < GRID_SIZE (GAME_CONFIG s)
     \<and> gridData s ! row (emptyPos s) ! col (emptyPos s) = 0
     \<and> zeroCount (gridData s)
         = GRID_SIZE (GAME_CONFIG s) * GRID_SIZE (GAME_CONFIG s) - length (rsequence r)
     \<and> (zeroCount (gridData s) = 1
         \<longleftrightarrow> Suc (length (rsequence r)) = GRID_SIZE (GAME_CONFIG s) * GRID_SIZE (GAME_CONFIG s))"
    by (auto simp: boardInv_def)
qed

theorem empty_cell_invariant_witness:
  "wellFormedRecipe leafy_stack \<and> reachable leafy_stack (createBoard initialWorld)
   \<and> emptyPos (createBoard initialWorld) = \<lparr>row = 1, col = 2\<rparr>
   \<and> gridData (createBoard initialWorld) ! 1 ! 2 = 0
   \<and> zeroCount (gridData (createBoard initialWorld)) = 3 * 3 - 4"
proof -
  have wf: "wellFormedRecipe leafy_stack"
    by (simp add: wellFormedRecipe_def leafy_stack_def orDefault_def)
  from empty_cell_invariant [of leafy_stack "createBoard initialWorld"] wf createBoard_reachable
  show ?thesis by (simp add: createBoard_initial leafy_stack_def)
qed

section \<open>The ingredients on the board\<close>

text \<open>
  Claim C7. In every reachable world of a session whose recipe is well formed (as
  every recipe of the catalogue is), the multiset of the nonzero values of the grid
  is the multiset of the nonzero values of the recipe's sequence. \<open>moveTile\<close> on a
  tile of such a world succeeds and leaves that multiset as it is, a legal move in
  particular.
\<close>

theorem ingredients_preserved:
  "(wellFormedRecipe r \<and> reachable r s \<longrightarrow>
      nonzeroCells (gridData s) = mset (filter (\<lambda>v. v \<noteq> 0) (rsequence r)))
   \<and> (wellFormedRecipe r \<and> reachable r s \<and> i < length (tiles s) \<longrightarrow>
      (\<exists>s'. moveTile i isPlayerMove s = Inr s'
            \<and> nonzeroCells (gridData s') = nonzeroCells (gridData s)))
   \<and> list_all wellFormedRecipe RECIPES"
proof (intro conjI impI)
  assume a: "wellFormedRecipe r \<and> reachable r s"
  then have inv: "boardInv r s" using reachable_boardInv by blast
  from a have "filter (\<lambda>v. v \<noteq> 0) (rsequence r) = rsequence r"
    by (auto simp: wellFormedRecipe_def filter_id_conv)
  with inv show "nonzeroCells (gridData s) = mset (filter (\<lambda>v. v \<noteq> 0) (rsequence r))"
    by (simp add: boardInv_def)
next
  assume a: "wellFormedRecipe r \<and> reachable r s \<and> i < length (tiles s)"
  then have inv: "boardInv r s" using reachable_boardInv by blast
  from moveTile_keeps_boardInv [OF inv, of i isPlayerMove] a
  obtain s' where "moveTile i isPlayerMove s = Inr s'" "boardInv r s'" by blast
  with inv show "\<exists>s'. moveTile i isPlayerMove s = Inr s'
            \<and> nonzeroCells (gridData s') = nonzeroCells (gridData s)"
    by (auto simp: boardInv_def)
next
  show "list_all wellFormedRecipe RECIPES" by (rule catalogue_wellFormed)
qed

theorem ingredients_preserved_witness:
  "wellFormedRecipe leafy_stack \<and> reachable leafy_stack (createBoard initialWorld)
   \<and> canTileMove (tiles (createBoard initialWorld) ! 2) (createBoard initialWorld)
   \<and> nonzeroCells (gridData (createBoard initialWorld)) = {#1, 2, 3, 8#}
   \<and> map_sum id gridData (moveTile 2 False (createBoard initialWorld))
       = Inr [[1, 2, 0], [8, 0, 3], [0, 0, 0]]
   \<and> (\<exists>s'. moveTile 2 False (createBoard initialWorld) = Inr s'
            \<and> nonzeroCells (gridData s') = {#1, 2, 3, 8#})"
proof -
  have wf: "wellFormedRecipe leafy_stack"
    by (simp add: wellFormedRecipe_def leafy_stack_def orDefault_def)
  have l: "2 < length (tiles (createBoard initialWorld))"
    by (simp add: createBoard_initial)
  have c: "canTileMove (tiles (createBoard initialWorld) ! 2) (createBoard initialWorld)"
    by (simp add: createBoard_initial canTileMove_def)
  have g: "map_sum id gridData (moveTile 2 False (createBoard initialWorld))
             = Inr [[1, 2, 0], [8, 0, 3], [0, 0, 0]]"
    by (simp add: createBoard_initial move_defs Let_def)
  note inst = ingredients_preserved [of leafy_stack "createBoard initialWorld" 2 False]
  have sq: "mset (filter (\<lambda>v. v \<noteq> 0) (rsequence leafy_stack)) = {#1, 2, 3, 8#}"
    by (simp add: leafy_stack_def)
  have nz: "nonzeroCells (gridData (createBoard initialWorld)) = {#1, 2, 3, 8#}"
    using inst wf createBoard_reachable sq by simp
  from inst wf createBoard_reachable l
  obtain s' where "moveTile 2 False (createBoard initialWorld) = Inr s'"
    "nonzeroCells (gridData s') = nonzeroCells (gridData (createBoard initialWorld))"
    by blast
  with nz have "\<exists>s'. moveTile 2 False (createBoard initialWorld) = Inr s'
            \<and> nonzeroCells (gridData s') = {#1, 2, 3, 8#}"
    by simp
  with wf createBoard_reachable c nz g show ?thesis by blast
qed

section \<open>No immediate backtracking in the shuffle\<close>

lemma shuffle_run_noBacktrack:
  assumes "performAnimatedShuffle rng s = Inr (steps, s')"
  shows "noBacktrackFrom None steps"
  using assms makeShuffleMove_noBacktrackFrom
  by (auto simp: performAnimatedShuffle_def split: sum.splits)

text \<open>
  Claim C8. In the log of a shuffle, whenever two consecutive steps both move a
  tile and the later step had more than one legal move, the two tiles differ. At
  the level of a single step: with more than one legal move, every candidate left
  by the filter has an id other than that of the tile moved last, so it is another
  tile. From a reachable world of a well-formed recipe the shuffle does return a
  log, with one entry for each of the configured moves.
\<close>

theorem shuffle_never_backtracks:
  "(performAnimatedShuffle rng s = Inr (steps, s') \<and> Suc j < length steps \<and>
      snd (steps ! j) = Some a \<and> snd (steps ! Suc j) = Some b \<and> 1 < fst (steps ! Suc j)
      \<longrightarrow> a \<noteq> b)
   \<and> (c \<in> set (shuffleCandidates (Some l) t) \<and> 1 < length (movableTiles t)
      \<longrightarrow> tid (tiles t ! c) \<noteq> tid (tiles t ! l) \<and> l \<noteq> c)
   \<and> (wellFormedRecipe r \<and> reachable r u
      \<longrightarrow> (\<exists>entries u'. performAnimatedShuffle rng' u = Inr (entries, u')
            \<and> length entries = SHUFFLE_MOVE_COUNT (GAME_CONFIG u)))"
  using shuffle_run_noBacktrack [of rng s steps s']
    noBacktrackFrom_consecutive [of None steps j a b] candidate_differs [of c l t]
    performAnimatedShuffle_reachable [of r u rng']
  by blast

text \<open>
  A run of six moves in which every draw is 0. The fifth step has a single legal
  move and moves the tile of the fourth step back; every other step had two legal
  moves and moves another tile than the step before it.
\<close>

lemma shortShuffle_run:
  "map_sum id fst (performAnimatedShuffle (\<lambda>_. lowDraw) shortShuffle)
   = Inr [(1, Some 2), (2, Some 1), (2, Some 0), (2, Some 3), (1, Some 3), (2, Some 0)]"
  by (simp add: shortShuffle_def performAnimatedShuffle_def createBoard_initial reset_defs
      initialConfig_def initialGameState_def leafy_stack_def upt_rec Let_def
      makeShuffleMove.simps shuffleCandidates_def movableTiles_def move_defs
      performHybridShuffle_def)

theorem shuffle_never_backtracks_witness:
  "map_sum id fst (performAnimatedShuffle (\<lambda>_. lowDraw) shortShuffle)
     = Inr [(1, Some 2), (2, Some 1), (2, Some 0), (2, Some 3), (1, Some 3), (2, Some 0)]
   \<and> shuffleCandidates (Some 2) (nearlySolved 0) = [1]
   \<and> movableTiles (nearlySolved 0) = [1, 2]
   \<and> tid (tiles (nearlySolved 0) ! 1) \<noteq> tid (tiles (nearlySolved 0) ! 2)
   \<and> wellFormedRecipe leafy_stack \<and> reachable leafy_stack (createBoard initialWorld)
   \<and> (\<exists>entries u'. performAnimatedShuffle (\<lambda>_. highDraw) (createBoard initialWorld)
                         = Inr (entries, u')
                     \<and> length entries = 20)"
proof -
  let ?run = "performAnimatedShuffle (\<lambda>_. lowDraw) shortShuffle"
  let ?steps = "[(1, Some 2), (2, Some 1), (2, Some 0), (2, Some 3), (1, Some 3), (2, Some 0)]
                  :: shuffleLog"
  have run: "?run = Inr (?steps, snd (projr ?run))"
    using shortShuffle_run by (cases ?run) auto
  have m: "movableTiles (nearlySolved 0) = [1, 2]"
    by (simp add: movableTiles_def example_defs canTileMove_def upt_rec)
  have c: "shuffleCandidates (Some 2) (nearlySolved 0) = [1]"
    by (simp add: shuffleCandidates_def m) (simp add: example_defs)
  have wf: "wellFormedRecipe leafy_stack"
    by (simp add: wellFormedRecipe_def leafy_stack_def orDefault_def)
  have cnt: "SHUFFLE_MOVE_COUNT (GAME_CONFIG (createBoard initialWorld)) = 20"
    by (simp add: createBoard_initial initialConfig_def)
  from shuffle_never_backtracks
    [where rng = "\<lambda>_. lowDraw" and s = shortShuffle and steps = ?steps
       and s' = "snd (projr ?run)" and j = 0 and a = 2 and b = 1
       and c = 1 and l = 2 and t = "nearlySolved 0"
       and r = leafy_stack and u = "createBoard initialWorld" and rng' = "\<lambda>_. highDraw"]
    run m c shortShuffle_run wf createBoard_reachable cnt
  show ?thesis by simp
qed

end
